theory Spec2Isabelle
  imports Main
begin

section \<open>JavaScript string operations used by the token generator\<close>

text \<open>
  Strings are modelled as \<^typ>\<open>string\<close>, one \<^typ>\<open>char\<close> per code unit, which covers the
  code units below 256. The operations below are the ones the generator calls on strings:
  \<^verbatim>\<open>includes\<close>, \<^verbatim>\<open>startsWith\<close>, \<^verbatim>\<open>split\<close> with a one-character separator,
  \<^verbatim>\<open>trim\<close>, \<^verbatim>\<open>replace\<close> with a string pattern (first occurrence only) and
  \<^verbatim>\<open>replace(/([A-Z])/g, ' $1')\<close>.
\<close>

definition startsWith :: "string \<Rightarrow> string \<Rightarrow> bool" where
  "startsWith hay needle = (take (length needle) hay = needle)"

fun js_includes :: "string \<Rightarrow> string \<Rightarrow> bool" where
  "js_includes [] needle = (needle = [])"
| "js_includes (c # cs) needle = (startsWith (c # cs) needle \<or> js_includes cs needle)"

text \<open>
  \<^verbatim>\<open>s.split(sep)\<close> for a one-character separator: the string is cut at every occurrence
  of the separator; the empty string gives one empty part. The result is never the empty
  list, so the second branch of the \<open>case\<close> is never taken.
\<close>

fun split_on :: "char \<Rightarrow> string \<Rightarrow> string list" where
  "split_on sep [] = [[]]"
| "split_on sep (c # cs) =
     (if c = sep then [] # split_on sep cs
      else (case split_on sep cs of
              part # parts \<Rightarrow> (c # part) # parts
            | [] \<Rightarrow> [[c]]))"

text \<open>
  \<^verbatim>\<open>trim\<close> removes white space and line terminators from both ends. Among the code
  units below 256 these are TAB, LF, VT, FF, CR, SPACE and NBSP.
\<close>

definition is_space :: "char \<Rightarrow> bool" where
  "is_space c = (of_char c \<in> {9, 10, 11, 12, 13, 32, 160 :: nat})"

definition trim :: "string \<Rightarrow> string" where
  "trim s = rev (dropWhile is_space (rev (dropWhile is_space s)))"

fun replace_first :: "string \<Rightarrow> string \<Rightarrow> string \<Rightarrow> string" where
  "replace_first pat rep [] = (if pat = [] then rep else [])"
| "replace_first pat rep (c # cs) =
     (if startsWith (c # cs) pat then rep @ drop (length pat) (c # cs)
      else c # replace_first pat rep cs)"

definition is_upper :: "char \<Rightarrow> bool" where
  "is_upper c = (65 \<le> (of_char c :: nat) \<and> (of_char c :: nat) \<le> 90)"

fun space_capitals :: "string \<Rightarrow> string" where
  "space_capitals [] = []"
| "space_capitals (c # cs) =
     (if is_upper c then CHR '' '' # c # space_capitals cs else c # space_capitals cs)"

definition toSpacedName :: "string \<Rightarrow> string" where
  "toSpacedName permissionName = trim (space_capitals permissionName)"

section \<open>JavaScript values and property reads\<close>

text \<open>
  The values that a property read can give: \<^verbatim>\<open>undefined\<close>, the values of a parsed JSON
  body (its numbers are integers here), and \<open>JInherited k\<close>, the built-in function or
  object that every plain object inherits from \<^verbatim>\<open>Object.prototype\<close> under the name
  \<open>k\<close>.
\<close>

datatype js_value =
    JUndefined
  | JNull
  | JBool bool
  | JNumber int
  | JString string
  | JArray "js_value list"
  | JObject "(string \<times> js_value) list"
  | JInherited string

text \<open>What \<^verbatim>\<open>!v\<close> and \<^verbatim>\<open>v || d\<close> look at: every object, array and function is truthy.\<close>

definition truthy :: "js_value \<Rightarrow> bool" where
  "truthy v =
     (case v of
        JUndefined \<Rightarrow> False
      | JNull \<Rightarrow> False
      | JBool b \<Rightarrow> b
      | JNumber n \<Rightarrow> n \<noteq> 0
      | JString s \<Rightarrow> s \<noteq> []
      | _ \<Rightarrow> True)"

definition or_else :: "js_value \<Rightarrow> js_value \<Rightarrow> js_value" where
  "or_else v d = (if truthy v then v else d)"

text \<open>The property names of \<^verbatim>\<open>Object.prototype\<close>; each of them holds a truthy value.\<close>

definition object_prototype_names :: "string list" where
  "object_prototype_names =
     [''constructor'', ''__defineGetter__'', ''__defineSetter__'', ''hasOwnProperty'',
      ''__lookupGetter__'', ''__lookupSetter__'', ''isPrototypeOf'', ''propertyIsEnumerable'',
      ''toString'', ''valueOf'', ''__proto__'', ''toLocaleString'']"

text \<open>
  \<^verbatim>\<open>obj[k]\<close> on a plain object whose own properties are \<open>obj\<close>: an own property wins,
  then comes what the object inherits, and \<^verbatim>\<open>undefined\<close> is left for every other name.
\<close>

definition get_property :: "(string \<rightharpoonup> js_value) \<Rightarrow> string \<Rightarrow> js_value" where
  "get_property obj k =
     (case obj k of
        Some v \<Rightarrow> v
      | None \<Rightarrow> if k \<in> set object_prototype_names then JInherited k else JUndefined)"

section \<open>Errors\<close>

text \<open>
  Every failure of the generator is a thrown \<^verbatim>\<open>Error\<close> that ends in
  \<^verbatim>\<open>process.exit(1)\<close>. The constructors name the throw sites: the two format checks of
  \<^verbatim>\<open>createToken\<close>, the missing group and the failed request of
  \<^verbatim>\<open>getPermissionGroupId\<close>, and the failed or rejected token request. \<open>TypeError\<close> is
  the error of the runtime when the callback calls \<^verbatim>\<open>startsWith\<close> or \<^verbatim>\<open>split\<close> on a
  value that is not a string.
\<close>

datatype error =
    InvalidFormatError string
  | PermissionNotFoundError string
  | RemoteLookupError
  | TokenCreationError
  | TypeError

section \<open>Splitting a permission descriptor\<close>

definition chosen_separator :: "string \<Rightarrow> char" where
  "chosen_separator permission =
     (if CHR '':'' \<in> set permission then CHR '':'' else CHR ''/'')"

text \<open>
  The checks at the head of the callback of \<^verbatim>\<open>permissions.map\<close>: an empty descriptor
  is refused, the descriptor is split at the chosen separator, the first two parts are
  bound to \<^verbatim>\<open>service\<close> and \<^verbatim>\<open>permissionName\<close>, and either one being empty or
  missing is refused.
\<close>

definition parse_permission :: "string \<Rightarrow> error + string \<times> string" where
  "parse_permission permission =
     (if permission = [] then Inl (InvalidFormatError permission)
      else (case split_on (chosen_separator permission) permission of
              service # permissionName # _ \<Rightarrow>
                if service = [] \<or> permissionName = []
                then Inl (InvalidFormatError permission)
                else Inr (service, permissionName)
            | _ \<Rightarrow> Inl (InvalidFormatError permission)))"

section \<open>The local permission table\<close>

text \<open>
  \<^verbatim>\<open>getPermissionGroupIds\<close> walks the entries of \<^verbatim>\<open>process.env\<close> in order and
  stores the value of every key that starts with \<^verbatim>\<open>PERMISSION_\<close> under the spaced
  name; a later entry with the same spaced name overwrites an earlier one. The table is a
  plain object: the map below holds its own properties. An assignment of a string to
  \<^verbatim>\<open>__proto__\<close> creates no own property and changes nothing.
\<close>

definition permissionKey :: "string \<Rightarrow> string" where
  "permissionKey key = trim (space_capitals (replace_first ''PERMISSION_'' [] key))"

fun collect_permissions ::
  "(string \<times> string) list \<Rightarrow> (string \<rightharpoonup> string) \<Rightarrow> (string \<rightharpoonup> string)" where
  "collect_permissions [] permissions = permissions"
| "collect_permissions ((key, val) # entries) permissions =
     collect_permissions entries
       (if startsWith key ''PERMISSION_'' \<and> permissionKey key \<noteq> ''__proto__''
        then permissions(permissionKey key \<mapsto> val)
        else permissions)"

definition getPermissionGroupIds :: "(string \<times> string) list \<Rightarrow> (string \<rightharpoonup> string)" where
  "getPermissionGroupIds environment = collect_permissions environment Map.empty"

section \<open>Network calls\<close>

text \<open>
  A run is observed through the network calls it issues. \<open>Request c\<close> is the moment the
  program calls \<^verbatim>\<open>axios.get\<close> or \<^verbatim>\<open>axios.post\<close>, \<open>Response c\<close> the moment the awaiting
  code resumes with the answer or the failure of that call, and \<open>Delay ms\<close> a
  \<^verbatim>\<open>setTimeout\<close> that is awaited.
\<close>

datatype call = IpGet | CatalogGet string | TokenPost

datatype event = Request call | Response call | Delay nat

text \<open>The largest number of calls that are issued and not yet answered at one moment.\<close>

fun peak_in_flight :: "nat \<Rightarrow> event list \<Rightarrow> nat" where
  "peak_in_flight open_calls [] = open_calls"
| "peak_in_flight open_calls (Request c # events) =
     max (Suc open_calls) (peak_in_flight (Suc open_calls) events)"
| "peak_in_flight open_calls (Response c # events) =
     max open_calls (peak_in_flight (open_calls - 1) events)"
| "peak_in_flight open_calls (Delay ms # events) = peak_in_flight open_calls events"

section \<open>Fetching the IP ranges\<close>

text \<open>
  The registry is a parameter: \<open>api k\<close> is what the \<open>k\<close>-th GET of the run meets, either a
  failure (anything that throws inside the \<^verbatim>\<open>try\<close>: a network error, the five second
  timeout, a status outside 2xx, a body that is \<^verbatim>\<open>null\<close>) or the parsed body, a JSON
  object given by its own properties. The function returns
  \<^verbatim>\<open>response.data[batch] || []\<close>, whatever kind of value that is.
\<close>

datatype meta_response = MetaFailed | MetaData "string \<rightharpoonup> js_value"

fun fetchGitHubIPs :: "(nat \<Rightarrow> meta_response) \<Rightarrow> string \<Rightarrow> nat \<Rightarrow> event list \<times> js_value" where
  "fetchGitHubIPs api batch 0 =
     (case api 0 of
        MetaData data \<Rightarrow>
          ([Request IpGet, Response IpGet], or_else (get_property data batch) (JArray []))
      | MetaFailed \<Rightarrow> ([Request IpGet, Response IpGet], JArray []))"
| "fetchGitHubIPs api batch (Suc retries) =
     (case api 0 of
        MetaData data \<Rightarrow>
          ([Request IpGet, Response IpGet], or_else (get_property data batch) (JArray []))
      | MetaFailed \<Rightarrow>
          (case fetchGitHubIPs (\<lambda>k. api (Suc k)) batch retries of
             (events, ips) \<Rightarrow> ([Request IpGet, Response IpGet, Delay 1000] @ events, ips)))"

section \<open>Looking a permission group up in the remote catalog\<close>

text \<open>
  The answer of the provider to the GET of the permission groups: the request failed, the
  body says \<^verbatim>\<open>success: false\<close> with its error messages, or the body lists the groups as
  pairs of name and id. In the first two cases the function throws, reports and exits.
\<close>

datatype catalog_response =
    CatalogFailed
  | CatalogRejected "string list"
  | CatalogData "(string \<times> string) list"

definition getPermissionGroupId :: "catalog_response \<Rightarrow> string \<Rightarrow> error + string" where
  "getPermissionGroupId response permissionName =
     (case response of
        CatalogFailed \<Rightarrow> Inl RemoteLookupError
      | CatalogRejected errors \<Rightarrow> Inl RemoteLookupError
      | CatalogData result \<Rightarrow>
          (case find (\<lambda>g. fst g = permissionName) result of
             Some entry \<Rightarrow> Inr (snd entry)
           | None \<Rightarrow> Inl (PermissionNotFoundError permissionName)))"

section \<open>Policies\<close>

record permission_group =
  group_id :: string
  meta_key :: string
  meta_value :: string

record policy =
  effect :: string
  permission_groups :: "permission_group list"
  resources :: "(string \<times> string) list"

text \<open>The account tag is put in front of a resource that does not contain it.\<close>

definition account_scoped :: "string \<Rightarrow> string \<Rightarrow> string" where
  "account_scoped account resource =
     (if account \<noteq> [] \<and> \<not> startsWith resource account
      then (if \<not> js_includes resource account then account @ ''.'' @ resource else resource)
      else resource)"

definition make_policy :: "string \<Rightarrow> string \<Rightarrow> string \<Rightarrow> policy" where
  "make_policy account service resource0 =
     (let resource = account_scoped account resource0
      in \<lparr>effect = ''allow'',
          permission_groups =
            [\<lparr>group_id = last (split_on CHR ''.'' resource),
              meta_key = ''service'', meta_value = service\<rparr>],
          resources = [(resource, ''*'')]\<rparr>)"

text \<open>
  The callback of \<^verbatim>\<open>permissions.map\<close> is an async function. Called on a descriptor it
  runs up to its first \<^verbatim>\<open>await\<close>: it has thrown (its promise is rejected), or it has
  returned a policy from the local table (fulfilled), or it has called
  \<^verbatim>\<open>getPermissionGroupId\<close>, which has issued its GET, and waits for the answer.

  The resource is \<^verbatim>\<open>permissionGroupIds[permissionName.trim()] || ''\<close>, a property read
  on the table object. A falsy resource starts the lookup. A truthy resource that is not a
  string, which is what a name gives that the table inherits and does not own, makes the
  call of \<^verbatim>\<open>resource.startsWith\<close> (or of \<^verbatim>\<open>resource.split\<close>) throw.
\<close>

datatype started = Rejected error | Fulfilled policy | Awaiting string string

definition table_object :: "(string \<rightharpoonup> string) \<Rightarrow> (string \<rightharpoonup> js_value)" where
  "table_object permissionGroupIds = (\<lambda>k. map_option JString (permissionGroupIds k))"

definition start_policy :: "string \<Rightarrow> (string \<rightharpoonup> string) \<Rightarrow> string \<Rightarrow> started" where
  "start_policy account permissionGroupIds permission =
     (case parse_permission permission of
        Inl e \<Rightarrow> Rejected e
      | Inr (service, permissionName) \<Rightarrow>
          (let resource = or_else (get_property (table_object permissionGroupIds)
                                     (trim permissionName)) (JString [])
           in if \<not> truthy resource then Awaiting service (trim permissionName)
              else (case resource of
                      JString r \<Rightarrow> Fulfilled (make_policy account service r)
                    | _ \<Rightarrow> Rejected TypeError)))"

definition requests_of :: "started \<Rightarrow> event list" where
  "requests_of s = (case s of Awaiting service nm \<Rightarrow> [Request (CatalogGet nm)] | _ \<Rightarrow> [])"

text \<open>The rest of the callback, once the answer of the catalog is there.\<close>

definition settle_one :: "string \<Rightarrow> catalog_response \<Rightarrow> started \<Rightarrow> event list \<times> (error + policy)" where
  "settle_one account response s =
     (case s of
        Rejected e \<Rightarrow> ([], Inl e)
      | Fulfilled p \<Rightarrow> ([], Inr p)
      | Awaiting service nm \<Rightarrow>
          ([Response (CatalogGet nm)],
           (case getPermissionGroupId response nm of
              Inl e \<Rightarrow> Inl e
            | Inr groupId \<Rightarrow> Inr (make_policy account service (service @ ''.'' @ groupId)))))"

text \<open>The whole callback on one descriptor: the permission resolver.\<close>

definition resolve ::
  "string \<Rightarrow> (string \<rightharpoonup> string) \<Rightarrow> catalog_response \<Rightarrow> string \<Rightarrow> event list \<times> (error + policy)" where
  "resolve account permissionGroupIds response permission =
     (let s = start_policy account permissionGroupIds permission
      in (requests_of s @ fst (settle_one account response s),
          snd (settle_one account response s)))"

text \<open>
  \<^verbatim>\<open>Promise.all\<close> over the started callbacks. A callback that is already rejected
  rejects the whole before any answer of the network is handled. Otherwise the answers are
  handled one by one, here in the order of the descriptors (\<open>api i\<close> is the answer to the
  lookup of descriptor \<open>i\<close>); a lookup that fails exits the process on the spot.
\<close>

fun first_rejection :: "started list \<Rightarrow> error option" where
  "first_rejection [] = None"
| "first_rejection (Rejected e # ss) = Some e"
| "first_rejection (s # ss) = first_rejection ss"

fun settle_all ::
  "string \<Rightarrow> (nat \<Rightarrow> catalog_response) \<Rightarrow> nat \<Rightarrow> started list \<Rightarrow> event list \<times> (error + policy list)" where
  "settle_all account api i [] = ([], Inr [])"
| "settle_all account api i (s # ss) =
     (case settle_one account (api i) s of
        (events, Inl e) \<Rightarrow> (events, Inl e)
      | (events, Inr p) \<Rightarrow>
          (case settle_all account api (Suc i) ss of
             (events', Inl e) \<Rightarrow> (events @ events', Inl e)
           | (events', Inr ps) \<Rightarrow> (events @ events', Inr (p # ps))))"

section \<open>The current time\<close>

text \<open>
  \<^verbatim>\<open>new Date()\<close> is a parameter of the run, given by its UTC fields (month and day
  counted from 1). \<^verbatim>\<open>toISOString\<close> prints it as \<^verbatim>\<open>YYYY-MM-DDTHH:mm:ss.sssZ\<close>; a year
  outside 0 to 9999 is printed with a sign and six digits.
\<close>

record date =
  utc_year :: int
  utc_month :: nat
  utc_day :: nat
  utc_hours :: nat
  utc_minutes :: nat
  utc_seconds :: nat
  utc_milliseconds :: nat

definition digit_char :: "nat \<Rightarrow> char" where
  "digit_char d = ''0123456789'' ! (d mod 10)"

definition pad2 :: "nat \<Rightarrow> string" where
  "pad2 v = [digit_char (v div 10), digit_char v]"

definition pad3 :: "nat \<Rightarrow> string" where
  "pad3 v = digit_char (v div 100) # pad2 v"

definition pad4 :: "nat \<Rightarrow> string" where
  "pad4 v = digit_char (v div 1000) # pad3 v"

definition pad6 :: "nat \<Rightarrow> string" where
  "pad6 v = digit_char (v div 100000) # digit_char (v div 10000) # pad4 v"

definition iso_year :: "int \<Rightarrow> string" where
  "iso_year y =
     (if 0 \<le> y \<and> y \<le> 9999 then pad4 (nat y)
      else (if y < 0 then ''-'' else ''+'') @ pad6 (nat \<bar>y\<bar>))"

definition iso_seconds :: "date \<Rightarrow> string" where
  "iso_seconds d =
     iso_year (utc_year d) @ ''-'' @ pad2 (utc_month d) @ ''-'' @ pad2 (utc_day d)
     @ ''T'' @ pad2 (utc_hours d) @ '':'' @ pad2 (utc_minutes d)
     @ '':'' @ pad2 (utc_seconds d)"

definition toISOString :: "date \<Rightarrow> string" where
  "toISOString d = iso_seconds d @ ''.'' @ pad3 (utc_milliseconds d) @ ''Z''"

section \<open>The token request\<close>

text \<open>
  The object posted to the provider. A field that is \<^verbatim>\<open>undefined\<close> is left out of the
  JSON body: it is \<open>None\<close> here. \<open>condition = Some ips\<close> stands for
  \<^verbatim>\<open>{request_ip: {in: ips}}\<close>, where \<open>ips\<close> is the value that the fetch returned.
\<close>

record payload =
  name :: string
  policies :: "policy list"
  condition :: "js_value option"
  expires_on :: "string option"
  not_before :: string

text \<open>\<^verbatim>\<open>expiration || undefined\<close>: a missing and an empty string both give \<^verbatim>\<open>undefined\<close>.\<close>

definition or_undefined :: "string option \<Rightarrow> string option" where
  "or_undefined expiration =
     (case expiration of None \<Rightarrow> None | Some s \<Rightarrow> if s = [] then None else Some s)"

datatype token_response = TokenFailed | TokenRejected "string list" | TokenCreated string

text \<open>What a run meets outside the program.\<close>

record world =
  env :: "(string \<times> string) list"
  ACCOUNT_ID :: string
  github_meta :: "nat \<Rightarrow> meta_response"
  permission_groups_api :: "nat \<Rightarrow> catalog_response"
  now :: date
  tokens_api :: "payload \<Rightarrow> token_response"

text \<open>
  The first statements of \<^verbatim>\<open>createToken\<close>: the IP ranges are fetched, with the default
  of three retries, and awaited when whitelisting is on; then \<^verbatim>\<open>permissions.map\<close> calls
  the callback on every descriptor in order, and each call runs up to its first
  \<^verbatim>\<open>await\<close>.
\<close>

definition ip_phase :: "world \<Rightarrow> bool \<Rightarrow> string \<Rightarrow> event list \<times> js_value" where
  "ip_phase w whitelistGitHubIPs githubIPBatch =
     (if whitelistGitHubIPs then fetchGitHubIPs (github_meta w) githubIPBatch 3
      else ([], JArray []))"

definition start_all :: "world \<Rightarrow> string list \<Rightarrow> started list" where
  "start_all w permissions =
     map (start_policy (ACCOUNT_ID w) (getPermissionGroupIds (env w))) permissions"

text \<open>
  \<^verbatim>\<open>createToken\<close> up to the assembled \<^verbatim>\<open>payload\<close>: after the two steps above
  \<^verbatim>\<open>Promise.all\<close> is awaited and the object is put together. The result is the network
  events so far and the payload, or the error that ends the run.
\<close>

definition build ::
  "world \<Rightarrow> string \<Rightarrow> string list \<Rightarrow> string option \<Rightarrow> bool \<Rightarrow> string \<Rightarrow> event list \<times> (error + payload)" where
  "build w nm permissions expiration whitelistGitHubIPs githubIPBatch =
     (let ip = ip_phase w whitelistGitHubIPs githubIPBatch;
          started = start_all w permissions;
          issued = fst ip @ concat (map requests_of started)
      in case first_rejection started of
           Some e \<Rightarrow> (issued, Inl e)
         | None \<Rightarrow>
             (case settle_all (ACCOUNT_ID w) (permission_groups_api w) 0 started of
                (answers, Inl e) \<Rightarrow> (issued @ answers, Inl e)
              | (answers, Inr ps) \<Rightarrow>
                  (issued @ answers,
                   Inr \<lparr>name = nm, policies = ps,
                        condition = (if whitelistGitHubIPs then Some (snd ip) else None),
                        expires_on = or_undefined expiration,
                        not_before = hd (split_on CHR ''.'' (toISOString (now w))) @ ''Z''\<rparr>)))"

datatype outcome = Exit1 error | Saved string

text \<open>
  The whole of \<^verbatim>\<open>createToken\<close>: the payload is posted; the token value of a successful
  answer is written to \<^verbatim>\<open>cf-token.txt\<close>, anything else exits with status 1.
\<close>

definition createToken ::
  "world \<Rightarrow> string \<Rightarrow> string list \<Rightarrow> string option \<Rightarrow> bool \<Rightarrow> string \<Rightarrow> event list \<times> outcome" where
  "createToken w nm permissions expiration whitelistGitHubIPs githubIPBatch =
     (case build w nm permissions expiration whitelistGitHubIPs githubIPBatch of
        (events, Inl e) \<Rightarrow> (events, Exit1 e)
      | (events, Inr request) \<Rightarrow>
          (events @ [Request TokenPost, Response TokenPost],
           (case tokens_api w request of
              TokenCreated v \<Rightarrow> Saved v
            | TokenRejected errors \<Rightarrow> Exit1 TokenCreationError
            | TokenFailed \<Rightarrow> Exit1 TokenCreationError)))"

section \<open>Descriptors as the specification words them\<close>

text \<open>
  A descriptor is well formed when it splits into exactly two non-empty parts under the
  chosen separator.
\<close>

definition well_formed :: "string \<Rightarrow> bool" where
  "well_formed permission =
     (case split_on (chosen_separator permission) permission of
        [service, permissionName] \<Rightarrow> service \<noteq> [] \<and> permissionName \<noteq> []
      | _ \<Rightarrow> False)"

text \<open>
  A descriptor is malformed when the separator is missing, or the service is empty, or
  the permission name is empty. The service is the text before the first separator and
  the permission name is the text between the first separator and the next one, or the
  end; both are looked at as they stand, before any trimming.
\<close>

definition malformed :: "string \<Rightarrow> bool" where
  "malformed permission =
     (let sep = chosen_separator permission
      in sep \<notin> set permission
         \<or> takeWhile (\<lambda>c. c \<noteq> sep) permission = []
         \<or> takeWhile (\<lambda>c. c \<noteq> sep) (tl (dropWhile (\<lambda>c. c \<noteq> sep) permission)) = [])"

text \<open>
  A descriptor reads an inherited property when it is accepted and its trimmed permission
  name is a name that the table inherits and does not own.
\<close>

definition reads_inherited :: "(string \<rightharpoonup> string) \<Rightarrow> string \<Rightarrow> bool" where
  "reads_inherited permissionGroupIds permission =
     (case parse_permission permission of
        Inl e \<Rightarrow> False
      | Inr (service, permissionName) \<Rightarrow>
          permissionGroupIds (trim permissionName) = None
          \<and> trim permissionName \<in> set object_prototype_names)"

text \<open>
  The calls of a fetch that is answered or given up after \<open>n\<close> retries: every retry
  comes after a wait of 1000 milliseconds.
\<close>

fun retry_trace :: "nat \<Rightarrow> event list" where
  "retry_trace 0 = [Request IpGet, Response IpGet]"
| "retry_trace (Suc n) = [Request IpGet, Response IpGet, Delay 1000] @ retry_trace n"

section \<open>A world to run the generator in\<close>

text \<open>
  The account \<open>ACCT1\<close> with one id in its local table; the registry answers at once
  with one range for the batch \<open>actions\<close>; the catalog knows the groups \<open>Zone Read\<close> and
  \<open>b\<close>; the provider creates every token.
\<close>

definition demo_world :: world where
  "demo_world =
     \<lparr>env = [(''ACCOUNT_ID'', ''ACCT1''), (''PERMISSION_AccountSettingsRead'', ''abc123'')],
      ACCOUNT_ID = ''ACCT1'',
      github_meta = (\<lambda>k. MetaData [''actions'' \<mapsto> JArray [JString ''1.2.3.0/24'']]),
      permission_groups_api = (\<lambda>i. CatalogData [(''Zone Read'', ''zr1''), (''b'', ''b1'')]),
      now = \<lparr>utc_year = 2025, utc_month = 3, utc_day = 9, utc_hours = 4, utc_minutes = 5,
             utc_seconds = 6, utc_milliseconds = 78\<rparr>,
      tokens_api = (\<lambda>request. TokenCreated ''secret'')\<rparr>"

section \<open>Facts about splitting\<close>

lemma split_on_not_Nil: "split_on sep s \<noteq> []"
  by (induction s) (auto split: list.splits)

lemma split_on_length: "length (split_on sep s) = Suc (length (filter (\<lambda>c. c = sep) s))"
  by (induction s) (auto split: list.splits)

lemma split_on_no_sep: "sep \<notin> set s \<Longrightarrow> split_on sep s = [s]"
  by (induction s) auto

lemma split_on_append_sep: "sep \<notin> set a \<Longrightarrow> split_on sep (a @ sep # b) = a # split_on sep b"
  by (induction a) auto

lemma split_on_takeWhile:
  "split_on sep s =
     takeWhile (\<lambda>c. c \<noteq> sep) s #
       (case dropWhile (\<lambda>c. c \<noteq> sep) s of [] \<Rightarrow> [] | c # r \<Rightarrow> split_on sep r)"
  by (induction s) (auto split: list.splits)

lemma dropWhile_Nil_iff: "dropWhile (\<lambda>c. c \<noteq> sep) s = [] \<longleftrightarrow> sep \<notin> set s"
  by (induction s) auto

lemma two_parts_one_separator:
  assumes "length (split_on sep (a @ sep # b)) = 2"
  shows "sep \<notin> set a \<and> sep \<notin> set b"
proof -
  from assms have "length (filter (\<lambda>c. c = sep) a) + length (filter (\<lambda>c. c = sep) b) = 0"
    by (simp add: split_on_length)
  then have "filter (\<lambda>c. c = sep) a = []" and "filter (\<lambda>c. c = sep) b = []"
    by simp_all
  then show ?thesis
    by (auto simp: filter_empty_conv)
qed

lemma well_formed_joined:
  assumes "well_formed (a @ sep # b)" and "chosen_separator (a @ sep # b) = sep"
  shows "sep \<notin> set a \<and> sep \<notin> set b \<and> a \<noteq> [] \<and> b \<noteq> []"
proof -
  from assms have len: "length (split_on sep (a @ sep # b)) = 2"
    by (auto simp: well_formed_def split: list.splits)
  then have free: "sep \<notin> set a \<and> sep \<notin> set b"
    by (rule two_parts_one_separator)
  then have "split_on sep (a @ sep # b) = [a, b]"
    by (simp add: split_on_append_sep split_on_no_sep)
  with assms free show ?thesis
    by (simp add: well_formed_def)
qed

lemma parse_permission_joined:
  assumes "chosen_separator (a @ sep # b) = sep" and "sep \<notin> set a" and "sep \<notin> set b"
    and "a \<noteq> []" and "b \<noteq> []"
  shows "parse_permission (a @ sep # b) = Inr (a, b)"
  using assms by (simp add: parse_permission_def split_on_append_sep split_on_no_sep)

lemma split_on_first_two:
  assumes "sep \<in> set s"
  shows "\<exists>rest. split_on sep s =
           takeWhile (\<lambda>c. c \<noteq> sep) s
             # takeWhile (\<lambda>c. c \<noteq> sep) (tl (dropWhile (\<lambda>c. c \<noteq> sep) s)) # rest"
proof -
  from assms obtain c r where dw: "dropWhile (\<lambda>c. c \<noteq> sep) s = c # r"
    by (cases "dropWhile (\<lambda>c. c \<noteq> sep) s") (auto simp: dropWhile_Nil_iff)
  have "split_on sep s = takeWhile (\<lambda>c. c \<noteq> sep) s # split_on sep r"
    using dw by (subst split_on_takeWhile) simp
  also have "split_on sep r =
          takeWhile (\<lambda>c. c \<noteq> sep) r #
            (case dropWhile (\<lambda>c. c \<noteq> sep) r of [] \<Rightarrow> [] | c # r' \<Rightarrow> split_on sep r')"
    by (rule split_on_takeWhile)
  finally show ?thesis
    using dw by simp
qed

section \<open>How a descriptor is split\<close>

text \<open>
  Claim C4, as the code has it. The descriptor is cut at every occurrence of the chosen
  separator (\<open>:\<close> when the descriptor contains one, \<open>/\<close> otherwise). The service is the
  text before the first separator and the permission name is the text between the first
  and the second separator, or up to the end when there is no second one; what follows a
  second separator is dropped. The descriptor is refused with the format error exactly
  when it holds no separator, or the service is empty, or that permission name is empty;
  both are tested as they stand, before any trimming.
\<close>

theorem parse_permission_first_two_parts:
  "parse_permission p =
     (let sep = chosen_separator p;
          service = takeWhile (\<lambda>c. c \<noteq> sep) p;
          permissionName = takeWhile (\<lambda>c. c \<noteq> sep) (tl (dropWhile (\<lambda>c. c \<noteq> sep) p))
      in if sep \<in> set p \<and> service \<noteq> [] \<and> permissionName \<noteq> []
         then Inr (service, permissionName)
         else Inl (InvalidFormatError p))"
proof (cases "chosen_separator p \<in> set p")
  case False
  then have "split_on (chosen_separator p) p = [p]"
    by (rule split_on_no_sep)
  with False show ?thesis
    by (simp add: parse_permission_def Let_def)
next
  case True
  then obtain rest where parts: "split_on (chosen_separator p) p =
      takeWhile (\<lambda>c. c \<noteq> chosen_separator p) p
        # takeWhile (\<lambda>c. c \<noteq> chosen_separator p)
            (tl (dropWhile (\<lambda>c. c \<noteq> chosen_separator p) p)) # rest"
    using split_on_first_two by blast
  from True have "p \<noteq> []"
    by auto
  with True show ?thesis
    by (simp add: parse_permission_def Let_def parts)
qed

theorem parse_permission_first_two_parts_witness:
  "parse_permission ''zone/Zone Read/more'' = Inr (''zone'', ''Zone Read'')"
  using parse_permission_first_two_parts [of "''zone/Zone Read/more''"]
  by (simp add: chosen_separator_def)

text \<open>
  The descriptor \<open>a:b:c\<close> is accepted although it has three parts, and its permission
  name is \<open>b\<close>, not \<open>b:c\<close>.
\<close>

theorem parse_permission_drops_third_part:
  "parse_permission ''a:b:c'' = Inr (''a'', ''b'')
   \<and> parse_permission ''a:b:c'' \<noteq> Inr (''a'', ''b:c'')"
  by (simp add: parse_permission_def chosen_separator_def)

text \<open>
  Claim C9. When both spellings \<open>service:name\<close> and \<open>service/name\<close> are well formed,
  both are split into the same pair, the service and the name they were built from, and
  the resolver starts in the same way on both.
\<close>

theorem separator_transparent:
  assumes "well_formed (service @ '':'' @ nm)" and "well_formed (service @ ''/'' @ nm)"
  shows "parse_permission (service @ '':'' @ nm) = Inr (service, nm)
       \<and> parse_permission (service @ ''/'' @ nm) = Inr (service, nm)
       \<and> start_policy account ids (service @ '':'' @ nm)
           = start_policy account ids (service @ ''/'' @ nm)"
proof -
  have colon: "chosen_separator (service @ CHR '':'' # nm) = CHR '':''"
    by (simp add: chosen_separator_def)
  with assms(1) have c: "CHR '':'' \<notin> set service \<and> CHR '':'' \<notin> set nm \<and> service \<noteq> [] \<and> nm \<noteq> []"
    using well_formed_joined [of service "CHR '':''" nm] by simp
  then have slash: "chosen_separator (service @ CHR ''/'' # nm) = CHR ''/''"
    by (simp add: chosen_separator_def)
  with assms(2) have s: "CHR ''/'' \<notin> set service \<and> CHR ''/'' \<notin> set nm"
    using well_formed_joined [of service "CHR ''/''" nm] by simp
  have 1: "parse_permission (service @ CHR '':'' # nm) = Inr (service, nm)"
    using colon c by (intro parse_permission_joined) simp_all
  have 2: "parse_permission (service @ CHR ''/'' # nm) = Inr (service, nm)"
    using slash c s by (intro parse_permission_joined) simp_all
  from 1 2 show ?thesis
    by (simp add: start_policy_def)
qed

theorem separator_transparent_witness:
  "well_formed ''zone:Zone Read'' \<and> well_formed ''zone/Zone Read''
   \<and> parse_permission ''zone:Zone Read'' = Inr (''zone'', ''Zone Read'')
   \<and> parse_permission ''zone/Zone Read'' = Inr (''zone'', ''Zone Read'')"
proof -
  have a: "well_formed (''zone'' @ '':'' @ ''Zone Read'')"
    by (simp add: well_formed_def chosen_separator_def)
  have b: "well_formed (''zone'' @ ''/'' @ ''Zone Read'')"
    by (simp add: well_formed_def chosen_separator_def)
  from separator_transparent [OF a b, of "''ACCT1''" Map.empty] a b show ?thesis
    by simp
qed

section \<open>Resolving a descriptor that the local table knows\<close>

lemma startsWith_includes: "startsWith hay needle \<Longrightarrow> js_includes hay needle"
  by (cases hay) (auto simp: startsWith_def)

lemma account_scoped_includes:
  "account_scoped account resource =
     (if account \<noteq> [] \<and> \<not> js_includes resource account then account @ ''.'' @ resource
      else resource)"
  by (auto simp: account_scoped_def dest: startsWith_includes)

lemmas read_defs = get_property_def table_object_def or_else_def truthy_def

lemma start_policy_local:
  assumes "parse_permission permission = Inr (service, permissionName)"
    and "ids (trim permissionName) = Some v" and "v \<noteq> []"
  shows "start_policy account ids permission = Fulfilled (make_policy account service v)"
  using assms by (simp add: start_policy_def read_defs)

lemma start_policy_remote:
  assumes "parse_permission permission = Inr (service, permissionName)"
    and "(ids (trim permissionName) = None \<and> trim permissionName \<notin> set object_prototype_names)
         \<or> ids (trim permissionName) = Some []"
  shows "start_policy account ids permission = Awaiting service (trim permissionName)"
  using assms by (auto simp: start_policy_def read_defs)

lemma start_policy_inherited:
  assumes "parse_permission permission = Inr (service, permissionName)"
    and "ids (trim permissionName) = None"
    and "trim permissionName \<in> set object_prototype_names"
  shows "start_policy account ids permission = Rejected TypeError"
  using assms by (simp add: start_policy_def read_defs)

lemma start_policy_error:
  assumes "parse_permission permission = Inl e"
  shows "start_policy account ids permission = Rejected e"
  using assms by (simp add: start_policy_def)

lemma resolve_local:
  assumes "parse_permission permission = Inr (service, permissionName)"
    and "ids (trim permissionName) = Some v" and "v \<noteq> []"
  shows "resolve account ids response permission = ([], Inr (make_policy account service v))"
  using assms by (simp add: resolve_def start_policy_def read_defs requests_of_def settle_one_def)

lemma resolve_remote:
  assumes "parse_permission permission = Inr (service, permissionName)"
    and "(ids (trim permissionName) = None \<and> trim permissionName \<notin> set object_prototype_names)
         \<or> ids (trim permissionName) = Some []"
  shows "resolve account ids response permission =
           ([Request (CatalogGet (trim permissionName)), Response (CatalogGet (trim permissionName))],
            (case getPermissionGroupId response (trim permissionName) of
               Inl e \<Rightarrow> Inl e
             | Inr groupId \<Rightarrow> Inr (make_policy account service (service @ ''.'' @ groupId))))"
proof -
  have "start_policy account ids permission = Awaiting service (trim permissionName)"
    using assms by (rule start_policy_remote)
  then show ?thesis
    by (simp add: resolve_def requests_of_def settle_one_def)
qed

text \<open>
  Claim C2, as the code has it. For a descriptor that is accepted and whose trimmed
  permission name has a non-empty id in the local table, no call is made and the resource
  key is that id, with the account identifier and a dot put in front only when the id
  does not contain the account identifier; the service is not joined to the key. The
  permission group id of the policy is the last dot-separated segment of the key and the
  service is kept in the \<open>meta\<close> field.
\<close>

theorem local_resource_key:
  assumes "parse_permission permission = Inr (service, permissionName)"
    and "ids (trim permissionName) = Some v" and "v \<noteq> []"
  shows "(let key = (if account \<noteq> [] \<and> \<not> js_includes v account then account @ ''.'' @ v else v)
          in resolve account ids response permission =
               ([], Inr \<lparr>effect = ''allow'',
                        permission_groups =
                          [\<lparr>group_id = last (split_on CHR ''.'' key),
                            meta_key = ''service'', meta_value = service\<rparr>],
                        resources = [(key, ''*'')]\<rparr>))"
proof -
  have "resolve account ids response permission = ([], Inr (make_policy account service v))"
    using assms by (rule resolve_local)
  then show ?thesis
    by (simp add: make_policy_def account_scoped_includes Let_def)
qed

theorem local_resource_key_witness:
  "resolve ''ACCT1'' [''Zone Read'' \<mapsto> ''com.ACCT1.zr1''] CatalogFailed ''zone/Zone Read '' =
     ([], Inr \<lparr>effect = ''allow'',
              permission_groups =
                [\<lparr>group_id = ''zr1'', meta_key = ''service'', meta_value = ''zone''\<rparr>],
              resources = [(''com.ACCT1.zr1'', ''*'')]\<rparr>)"
proof -
  have a: "parse_permission ''zone/Zone Read '' = Inr (''zone'', ''Zone Read '')"
    by (simp add: parse_permission_def chosen_separator_def)
  have b: "[''Zone Read'' \<mapsto> ''com.ACCT1.zr1''] (trim ''Zone Read '') = Some ''com.ACCT1.zr1''"
    by (simp add: trim_def is_space_def)
  have c: "''com.ACCT1.zr1'' \<noteq> []"
    by simp
  show ?thesis
    using local_resource_key [of "''zone/Zone Read ''" "''zone''" "''Zone Read ''"
        "[''Zone Read'' \<mapsto> ''com.ACCT1.zr1'']" "''com.ACCT1.zr1''" "''ACCT1''" CatalogFailed] a b c
    by (simp add: startsWith_def Let_def)
qed

text \<open>
  With the table \<open>Account Settings Read \<mapsto> abc123\<close> and the account \<open>ACCT1\<close> the key
  of \<open>com.cloudflare.api.account:Account Settings Read\<close> is \<open>ACCT1.abc123\<close>: the service
  is not part of it.
\<close>

theorem local_resource_key_has_no_service:
  "resolve ''ACCT1'' [''Account Settings Read'' \<mapsto> ''abc123''] CatalogFailed
       ''com.cloudflare.api.account:Account Settings Read'' =
     ([], Inr \<lparr>effect = ''allow'',
              permission_groups =
                [\<lparr>group_id = ''abc123'', meta_key = ''service'',
                  meta_value = ''com.cloudflare.api.account''\<rparr>],
              resources = [(''ACCT1.abc123'', ''*'')]\<rparr>)
   \<and> ''ACCT1.abc123'' \<noteq> ''com.cloudflare.api.account.ACCT1.abc123''"
proof
  show "resolve ''ACCT1'' [''Account Settings Read'' \<mapsto> ''abc123''] CatalogFailed
       ''com.cloudflare.api.account:Account Settings Read'' =
     ([], Inr \<lparr>effect = ''allow'',
              permission_groups =
                [\<lparr>group_id = ''abc123'', meta_key = ''service'',
                  meta_value = ''com.cloudflare.api.account''\<rparr>],
              resources = [(''ACCT1.abc123'', ''*'')]\<rparr>)"
    by (simp add: resolve_def start_policy_def parse_permission_def chosen_separator_def
        trim_def is_space_def make_policy_def account_scoped_def startsWith_def
        requests_of_def settle_one_def Let_def read_defs)
  show "''ACCT1.abc123'' \<noteq> ''com.cloudflare.api.account.ACCT1.abc123''"
    by simp
qed

section \<open>An empty id in the local table\<close>

lemma getPermissionGroupIds_empty_value:
  "getPermissionGroupIds [(''PERMISSION_ZoneRead'', [])] ''Zone Read'' = Some []"
  by (simp add: getPermissionGroupIds_def permissionKey_def startsWith_def trim_def
      is_space_def is_upper_def)

text \<open>
  Claim C10. When the local table maps the trimmed permission name of an accepted
  descriptor to the empty string, the resolver does not use the empty string as the
  resource: it issues the catalog lookup for the trimmed name, and when the lookup returns
  a group id the resource is built from the service and that id. For every name that the
  table object does not inherit, this is the very run that the table without the entry
  gives.
\<close>

theorem empty_local_id_falls_back:
  assumes "parse_permission permission = Inr (service, permissionName)"
    and "ids (trim permissionName) = Some []"
  shows "start_policy account ids permission = Awaiting service (trim permissionName)
       \<and> resolve account ids response permission
           = ([Request (CatalogGet (trim permissionName)), Response (CatalogGet (trim permissionName))],
              (case getPermissionGroupId response (trim permissionName) of
                 Inl e \<Rightarrow> Inl e
               | Inr groupId \<Rightarrow> Inr (make_policy account service (service @ ''.'' @ groupId))))
       \<and> (trim permissionName \<notin> set object_prototype_names \<longrightarrow>
            resolve account ids response permission
              = resolve account (ids(trim permissionName := None)) response permission)"
proof -
  have here: "(ids (trim permissionName) = None \<and> trim permissionName \<notin> set object_prototype_names)
      \<or> ids (trim permissionName) = Some []"
    using assms(2) by simp
  have 1: "start_policy account ids permission = Awaiting service (trim permissionName)"
    using assms(1) here by (rule start_policy_remote)
  have 2: "resolve account ids response permission =
           ([Request (CatalogGet (trim permissionName)), Response (CatalogGet (trim permissionName))],
            (case getPermissionGroupId response (trim permissionName) of
               Inl e \<Rightarrow> Inl e
             | Inr groupId \<Rightarrow> Inr (make_policy account service (service @ ''.'' @ groupId))))"
    using assms(1) here by (rule resolve_remote)
  have 3: "resolve account (ids(trim permissionName := None)) response permission =
           ([Request (CatalogGet (trim permissionName)), Response (CatalogGet (trim permissionName))],
            (case getPermissionGroupId response (trim permissionName) of
               Inl e \<Rightarrow> Inl e
             | Inr groupId \<Rightarrow> Inr (make_policy account service (service @ ''.'' @ groupId))))"
    if "trim permissionName \<notin> set object_prototype_names"
  proof -
    have "((ids(trim permissionName := None)) (trim permissionName) = None
           \<and> trim permissionName \<notin> set object_prototype_names)
        \<or> (ids(trim permissionName := None)) (trim permissionName) = Some []"
      using that by simp
    with assms(1) show ?thesis
      by (rule resolve_remote)
  qed
  show ?thesis
  proof (intro conjI impI)
    show "start_policy account ids permission = Awaiting service (trim permissionName)"
      by (rule 1)
    show "resolve account ids response permission
           = ([Request (CatalogGet (trim permissionName)), Response (CatalogGet (trim permissionName))],
              (case getPermissionGroupId response (trim permissionName) of
                 Inl e \<Rightarrow> Inl e
               | Inr groupId \<Rightarrow> Inr (make_policy account service (service @ ''.'' @ groupId))))"
      by (rule 2)
    assume "trim permissionName \<notin> set object_prototype_names"
    then have "resolve account (ids(trim permissionName := None)) response permission
              = resolve account ids response permission"
      unfolding 2 by (rule 3)
    then show "resolve account ids response permission
              = resolve account (ids(trim permissionName := None)) response permission"
      by (rule sym)
  qed
qed

theorem empty_local_id_falls_back_witness:
  "getPermissionGroupIds [(''PERMISSION_ZoneRead'', [])] ''Zone Read'' = Some []
   \<and> resolve ''ACCT1'' (getPermissionGroupIds [(''PERMISSION_ZoneRead'', [])])
        (CatalogData [(''Zone Read'', ''zr1'')]) ''zone:Zone Read''
     = ([Request (CatalogGet ''Zone Read''), Response (CatalogGet ''Zone Read'')],
        Inr (make_policy ''ACCT1'' ''zone'' ''zone.zr1''))"
proof -
  have a: "parse_permission ''zone:Zone Read'' = Inr (''zone'', ''Zone Read'')"
    by (simp add: parse_permission_def chosen_separator_def)
  have t: "trim ''Zone Read'' = ''Zone Read''"
    by (simp add: trim_def is_space_def)
  have b: "getPermissionGroupIds [(''PERMISSION_ZoneRead'', [])] (trim ''Zone Read'') = Some []"
    by (simp only: t getPermissionGroupIds_empty_value)
  have g: "getPermissionGroupId (CatalogData [(''Zone Read'', ''zr1'')]) ''Zone Read'' = Inr ''zr1''"
    by (simp add: getPermissionGroupId_def)
  note main = empty_local_id_falls_back [of "''zone:Zone Read''" "''zone''" "''Zone Read''"
      "getPermissionGroupIds [(''PERMISSION_ZoneRead'', [])]" "''ACCT1''"
      "CatalogData [(''Zone Read'', ''zr1'')]", OF a b]
  have "resolve ''ACCT1'' (getPermissionGroupIds [(''PERMISSION_ZoneRead'', [])])
        (CatalogData [(''Zone Read'', ''zr1'')]) ''zone:Zone Read''
     = ([Request (CatalogGet ''Zone Read''), Response (CatalogGet ''Zone Read'')],
        Inr (make_policy ''ACCT1'' ''zone'' (''zone'' @ ''.'' @ ''zr1'')))"
    using main [THEN conjunct2, THEN conjunct1] by (simp only: t g sum.case)
  then have "resolve ''ACCT1'' (getPermissionGroupIds [(''PERMISSION_ZoneRead'', [])])
        (CatalogData [(''Zone Read'', ''zr1'')]) ''zone:Zone Read''
     = ([Request (CatalogGet ''Zone Read''), Response (CatalogGet ''Zone Read'')],
        Inr (make_policy ''ACCT1'' ''zone'' ''zone.zr1''))"
    by simp
  with getPermissionGroupIds_empty_value show ?thesis
    by (rule conjI)
qed

section \<open>Facts about a whole run\<close>

lemma parse_permission_error: "parse_permission p = Inl e \<Longrightarrow> e = InvalidFormatError p"
  by (auto simp: parse_permission_def split: if_splits list.splits)

lemma start_policy_Rejected:
  "start_policy account ids p = Rejected e \<Longrightarrow>
     parse_permission p = Inl e \<or> (e = TypeError \<and> reads_inherited ids p)"
  by (auto simp: start_policy_def reads_inherited_def read_defs Let_def
      split: sum.splits prod.splits if_splits option.splits js_value.splits)

lemma malformed_iff_rejected:
  "malformed p \<longleftrightarrow> parse_permission p = Inl (InvalidFormatError p)"
proof (cases "chosen_separator p \<in> set p")
  case False
  then have "split_on (chosen_separator p) p = [p]"
    by (rule split_on_no_sep)
  with False show ?thesis
    by (simp add: parse_permission_def malformed_def Let_def)
next
  case True
  then obtain rest where parts: "split_on (chosen_separator p) p =
      takeWhile (\<lambda>c. c \<noteq> chosen_separator p) p
        # takeWhile (\<lambda>c. c \<noteq> chosen_separator p)
            (tl (dropWhile (\<lambda>c. c \<noteq> chosen_separator p) p)) # rest"
    using split_on_first_two by blast
  from True have "p \<noteq> []"
    by auto
  with True show ?thesis
    by (simp add: parse_permission_def malformed_def Let_def parts)
qed

lemma malformed_rejected: "malformed p \<Longrightarrow> parse_permission p = Inl (InvalidFormatError p)"
  by (simp add: malformed_iff_rejected)

lemma first_rejection_Some: "first_rejection ss = Some e \<Longrightarrow> Rejected e \<in> set ss"
  by (induction ss rule: first_rejection.induct) auto

lemma first_rejection_None: "first_rejection ss = None \<Longrightarrow> Rejected e \<notin> set ss"
  by (induction ss rule: first_rejection.induct) auto

lemma first_rejection_exists: "Rejected e \<in> set ss \<Longrightarrow> \<exists>e'. first_rejection ss = Some e'"
  by (cases "first_rejection ss") (auto dest: first_rejection_None)

lemma fetch_answered:
  "api 0 = MetaData data \<Longrightarrow>
     fetchGitHubIPs api batch retries =
       ([Request IpGet, Response IpGet], or_else (get_property data batch) (JArray []))"
  by (cases retries) simp_all

lemma fetch_exhausted:
  "api 0 = MetaFailed \<Longrightarrow>
     fetchGitHubIPs api batch 0 = ([Request IpGet, Response IpGet], JArray [])"
  by simp

lemma fetch_retried:
  "api 0 = MetaFailed \<Longrightarrow>
     fetchGitHubIPs api batch (Suc retries) =
       ([Request IpGet, Response IpGet, Delay 1000]
          @ fst (fetchGitHubIPs (\<lambda>k. api (Suc k)) batch retries),
        snd (fetchGitHubIPs (\<lambda>k. api (Suc k)) batch retries))"
  by (simp split: prod.splits)

lemma fetch_events:
  "e \<in> set (fst (fetchGitHubIPs api batch retries)) \<Longrightarrow>
     e = Request IpGet \<or> e = Response IpGet \<or> e = Delay 1000"
proof (induction retries arbitrary: api)
  case 0
  then show ?case
    by (cases "api 0") (auto simp: fetch_answered)
next
  case (Suc retries)
  show ?case
  proof (cases "api 0")
    case MetaFailed
    with Suc.prems have "e \<in> set [Request IpGet, Response IpGet, Delay 1000]
        \<or> e \<in> set (fst (fetchGitHubIPs (\<lambda>k. api (Suc k)) batch retries))"
      by (simp add: fetch_retried del: fetchGitHubIPs.simps)
    then show ?thesis
      using Suc.IH by auto
  next
    case (MetaData data)
    with Suc.prems show ?thesis
      by (auto simp: fetch_answered)
  qed
qed

lemma ip_phase_events:
  "e \<in> set (fst (ip_phase w wl batch)) \<Longrightarrow>
     e = Request IpGet \<or> e = Response IpGet \<or> e = Delay 1000"
  by (auto simp: ip_phase_def dest: fetch_events split: if_splits)

lemma requests_of_events: "e \<in> set (requests_of s) \<Longrightarrow> \<exists>n. e = Request (CatalogGet n)"
  by (auto simp: requests_of_def split: started.splits)

lemma settle_one_events:
  "settle_one account r s = (ev, res) \<Longrightarrow> e \<in> set ev \<Longrightarrow> \<exists>n. e = Response (CatalogGet n)"
  by (auto simp: settle_one_def split: started.splits)

lemma settle_all_events:
  "settle_all account api k ss = (ev, res) \<Longrightarrow> e \<in> set ev \<Longrightarrow> \<exists>n. e = Response (CatalogGet n)"
proof (induction ss arbitrary: k ev res)
  case Nil
  then show ?case by simp
next
  case (Cons s ss)
  obtain ev1 r1 where one: "settle_one account (api k) s = (ev1, r1)"
    by (cases "settle_one account (api k) s")
  show ?case
  proof (cases r1)
    case (Inl err)
    with Cons.prems one have "ev = ev1" by simp
    with Cons.prems one show ?thesis by (auto dest: settle_one_events)
  next
    case (Inr pol)
    obtain ev2 r2 where rest: "settle_all account api (Suc k) ss = (ev2, r2)"
      by (cases "settle_all account api (Suc k) ss")
    with Cons.prems one Inr have "ev = ev1 @ ev2"
      by (cases r2) simp_all
    with Cons.prems(2) have "e \<in> set ev1 \<or> e \<in> set ev2" by simp
    then show ?thesis
      using one rest Cons.IH by (auto dest: settle_one_events)
  qed
qed

lemma settle_all_Inr:
  "settle_all account api k ss = (ev, Inr ps) \<Longrightarrow>
     length ps = length ss \<and>
     (\<forall>j<length ss. snd (settle_one account (api (k + j)) (ss ! j)) = Inr (ps ! j))"
proof (induction ss arbitrary: k ev ps)
  case Nil
  then show ?case by simp
next
  case (Cons s ss)
  obtain ev1 r1 where one: "settle_one account (api k) s = (ev1, r1)"
    by (cases "settle_one account (api k) s")
  obtain ev2 r2 where rest: "settle_all account api (Suc k) ss = (ev2, r2)"
    by (cases "settle_all account api (Suc k) ss")
  from Cons.prems one rest obtain pol ps' where
    r1: "r1 = Inr pol" and r2: "r2 = Inr ps'" and ps: "ps = pol # ps'"
    by (cases r1; cases r2) auto
  from Cons.IH [of "Suc k" ev2 ps'] rest r2
  have ih: "length ps' = length ss"
    "\<And>j. j < length ss \<Longrightarrow> snd (settle_one account (api (Suc k + j)) (ss ! j)) = Inr (ps' ! j)"
    by simp_all
  show ?case
  proof (intro conjI allI impI)
    show "length ps = length (s # ss)"
      using ih(1) ps by simp
  next
    fix j
    assume "j < length (s # ss)"
    then show "snd (settle_one account (api (k + j)) ((s # ss) ! j)) = Inr (ps ! j)"
      using one r1 ps ih(2) by (cases j) simp_all
  qed
qed

lemma settle_all_succeeds:
  "(\<And>j. j < length ss \<Longrightarrow> \<exists>p. snd (settle_one account (api (k + j)) (ss ! j)) = Inr p) \<Longrightarrow>
     \<exists>ev ps. settle_all account api k ss = (ev, Inr ps)"
proof (induction ss arbitrary: k)
  case Nil
  then show ?case by simp
next
  case (Cons s ss)
  from Cons.prems [of 0] obtain p where "snd (settle_one account (api k) s) = Inr p"
    by auto
  then obtain ev1 where one: "settle_one account (api k) s = (ev1, Inr p)"
    by (cases "settle_one account (api k) s") simp
  have "\<exists>ev ps. settle_all account api (Suc k) ss = (ev, Inr ps)"
  proof (rule Cons.IH)
    fix j
    assume "j < length ss"
    then show "\<exists>p. snd (settle_one account (api (Suc k + j)) (ss ! j)) = Inr p"
      using Cons.prems [of "Suc j"] by simp
  qed
  then obtain ev2 ps where "settle_all account api (Suc k) ss = (ev2, Inr ps)"
    by blast
  with one show ?case by simp
qed

lemma resolve_settle:
  "snd (resolve account ids response permission)
     = snd (settle_one account response (start_policy account ids permission))"
  by (simp add: resolve_def Let_def)

lemma build_rejected:
  "first_rejection (start_all w ps) = Some e \<Longrightarrow>
     build w nm ps ex wl b
       = (fst (ip_phase w wl b) @ concat (map requests_of (start_all w ps)), Inl e)"
  by (simp add: build_def Let_def)

lemma build_settle_failed:
  "first_rejection (start_all w ps) = None \<Longrightarrow>
   settle_all (ACCOUNT_ID w) (permission_groups_api w) 0 (start_all w ps) = (answers, Inl e) \<Longrightarrow>
     build w nm ps ex wl b
       = (fst (ip_phase w wl b) @ concat (map requests_of (start_all w ps)) @ answers, Inl e)"
  by (simp add: build_def Let_def)

lemma build_settled:
  "first_rejection (start_all w ps) = None \<Longrightarrow>
   settle_all (ACCOUNT_ID w) (permission_groups_api w) 0 (start_all w ps) = (answers, Inr pols) \<Longrightarrow>
     build w nm ps ex wl b
       = (fst (ip_phase w wl b) @ concat (map requests_of (start_all w ps)) @ answers,
          Inr \<lparr>name = nm, policies = pols,
               condition = (if wl then Some (snd (ip_phase w wl b)) else None),
               expires_on = or_undefined ex,
               not_before = hd (split_on CHR ''.'' (toISOString (now w))) @ ''Z''\<rparr>)"
  by (simp add: build_def Let_def)

lemma build_cases:
  obtains (rejected) e where "first_rejection (start_all w ps) = Some e"
      "build w nm ps ex wl b
         = (fst (ip_phase w wl b) @ concat (map requests_of (start_all w ps)), Inl e)"
  | (failed) answers e where "first_rejection (start_all w ps) = None"
      "settle_all (ACCOUNT_ID w) (permission_groups_api w) 0 (start_all w ps) = (answers, Inl e)"
      "build w nm ps ex wl b
         = (fst (ip_phase w wl b) @ concat (map requests_of (start_all w ps)) @ answers, Inl e)"
  | (settled) answers pols where "first_rejection (start_all w ps) = None"
      "settle_all (ACCOUNT_ID w) (permission_groups_api w) 0 (start_all w ps) = (answers, Inr pols)"
      "build w nm ps ex wl b
         = (fst (ip_phase w wl b) @ concat (map requests_of (start_all w ps)) @ answers,
            Inr \<lparr>name = nm, policies = pols,
                 condition = (if wl then Some (snd (ip_phase w wl b)) else None),
                 expires_on = or_undefined ex,
                 not_before = hd (split_on CHR ''.'' (toISOString (now w))) @ ''Z''\<rparr>)"
proof (cases "first_rejection (start_all w ps)")
  case (Some e)
  then show ?thesis
    using build_rejected rejected by blast
next
  case None
  obtain answers r where s: "settle_all (ACCOUNT_ID w) (permission_groups_api w) 0 (start_all w ps) = (answers, r)"
    by (cases "settle_all (ACCOUNT_ID w) (permission_groups_api w) 0 (start_all w ps)")
  show ?thesis
  proof (cases r)
    case (Inl e)
    with None s show ?thesis
      using build_settle_failed failed by blast
  next
    case (Inr pols)
    with None s show ?thesis
      using build_settled settled by blast
  qed
qed

lemma build_trace:
  "\<exists>answers. fst (build w nm ps ex wl b)
       = fst (ip_phase w wl b) @ concat (map requests_of (start_all w ps)) @ answers
     \<and> (\<forall>e\<in>set answers. \<exists>n. e = Response (CatalogGet n))"
proof (cases rule: build_cases [of w ps nm ex wl b])
  case (rejected e)
  then show ?thesis by simp
next
  case (failed answers e)
  then show ?thesis by (auto dest: settle_all_events)
next
  case (settled answers pols)
  then show ?thesis by (auto dest: settle_all_events)
qed

lemma build_no_post: "Request TokenPost \<notin> set (fst (build w nm ps ex wl b))"
proof -
  obtain answers where t: "fst (build w nm ps ex wl b)
       = fst (ip_phase w wl b) @ concat (map requests_of (start_all w ps)) @ answers"
    and a: "\<forall>e\<in>set answers. \<exists>n. e = Response (CatalogGet n)"
    using build_trace by blast
  show ?thesis
    unfolding t using a by (auto dest: ip_phase_events requests_of_events)
qed

lemma build_succeeds_iff:
  "(\<exists>request. snd (build w nm ps ex wl b) = Inr request) \<longleftrightarrow>
   (\<forall>i<length ps. \<exists>pol. snd (resolve (ACCOUNT_ID w) (getPermissionGroupIds (env w))
                               (permission_groups_api w i) (ps ! i)) = Inr pol)"
proof
  assume "\<exists>request. snd (build w nm ps ex wl b) = Inr request"
  then obtain request where ok: "snd (build w nm ps ex wl b) = Inr request" ..
  show "\<forall>i<length ps. \<exists>pol. snd (resolve (ACCOUNT_ID w) (getPermissionGroupIds (env w))
                               (permission_groups_api w i) (ps ! i)) = Inr pol"
  proof (cases rule: build_cases [of w ps nm ex wl b])
    case (rejected e)
    with ok show ?thesis by simp
  next
    case (failed answers e)
    with ok show ?thesis by simp
  next
    case (settled answers pols)
    from settle_all_Inr [OF settled(2)]
    have "\<forall>j<length ps. snd (settle_one (ACCOUNT_ID w) (permission_groups_api w j) (start_all w ps ! j))
            = Inr (pols ! j)"
      by (simp add: start_all_def)
    then show ?thesis
      by (simp add: resolve_settle start_all_def)
  qed
next
  assume all: "\<forall>i<length ps. \<exists>pol. snd (resolve (ACCOUNT_ID w) (getPermissionGroupIds (env w))
                               (permission_groups_api w i) (ps ! i)) = Inr pol"
  have one: "\<exists>p. snd (settle_one (ACCOUNT_ID w) (permission_groups_api w (0 + j)) (start_all w ps ! j)) = Inr p"
    if "j < length (start_all w ps)" for j
    using all that by (simp add: resolve_settle start_all_def)
  have none: "first_rejection (start_all w ps) = None"
  proof (cases "first_rejection (start_all w ps)")
    case (Some e)
    then have "Rejected e \<in> set (start_all w ps)"
      by (rule first_rejection_Some)
    then obtain j where j: "j < length (start_all w ps)" and "start_all w ps ! j = Rejected e"
      by (auto simp: in_set_conv_nth)
    with one [OF j] show ?thesis
      by (simp add: settle_one_def)
  qed simp
  from settle_all_succeeds [of "start_all w ps" "ACCOUNT_ID w" "permission_groups_api w" 0] one
  obtain ev pols where "settle_all (ACCOUNT_ID w) (permission_groups_api w) 0 (start_all w ps) = (ev, Inr pols)"
    by blast
  with none show "\<exists>request. snd (build w nm ps ex wl b) = Inr request"
    by (simp add: build_settled)
qed

lemma createToken_failed:
  "build w nm ps ex wl b = (ev, Inl e) \<Longrightarrow> createToken w nm ps ex wl b = (ev, Exit1 e)"
  by (simp add: createToken_def)

lemma createToken_posted:
  "build w nm ps ex wl b = (ev, Inr request) \<Longrightarrow>
     createToken w nm ps ex wl b =
       (ev @ [Request TokenPost, Response TokenPost],
        (case tokens_api w request of
           TokenCreated v \<Rightarrow> Saved v
         | TokenRejected errors \<Rightarrow> Exit1 TokenCreationError
         | TokenFailed \<Rightarrow> Exit1 TokenCreationError))"
  by (simp add: createToken_def)

lemma peak_fetch: "peak_in_flight 0 (fst (fetchGitHubIPs api batch retries)) = 1"
proof (induction retries arbitrary: api)
  case 0
  then show ?case
    by (cases "api 0") (simp_all add: fetch_answered)
next
  case (Suc retries)
  show ?case
  proof (cases "api 0")
    case MetaFailed
    then show ?thesis
      using Suc.IH [of "\<lambda>k. api (Suc k)"]
      by (simp add: fetch_retried del: fetchGitHubIPs.simps)
  next
    case (MetaData data)
    then show ?thesis
      by (simp add: fetch_answered)
  qed
qed

lemma getPermissionGroupId_Inr:
  "getPermissionGroupId response n = Inr groupId \<Longrightarrow>
     \<exists>groups. response = CatalogData groups \<and> (n, groupId) \<in> set groups"
  by (auto simp: getPermissionGroupId_def find_Some_iff in_set_conv_nth
      split: catalog_response.splits option.splits)

lemma getPermissionGroupId_found:
  "(n, groupId) \<in> set groups \<Longrightarrow> \<exists>g. getPermissionGroupId (CatalogData groups) n = Inr g"
  by (force simp: getPermissionGroupId_def find_None_iff split: option.splits)

lemma getPermissionGroupId_missing:
  "n \<notin> fst ` set groups \<Longrightarrow>
     getPermissionGroupId (CatalogData groups) n = Inl (PermissionNotFoundError n)"
  by (force simp: getPermissionGroupId_def find_Some_iff split: option.splits)

lemma resolve_failure_aborts:
  assumes "i < length ps"
    and "snd (resolve (ACCOUNT_ID w) (getPermissionGroupIds (env w))
               (permission_groups_api w i) (ps ! i)) = Inl e"
  shows "(\<exists>e'. snd (createToken w nm ps ex wl b) = Exit1 e')
       \<and> Request TokenPost \<notin> set (fst (createToken w nm ps ex wl b))"
proof -
  have "\<not> (\<exists>request. snd (build w nm ps ex wl b) = Inr request)"
    using assms by (auto simp: build_succeeds_iff)
  then obtain ev e' where "build w nm ps ex wl b = (ev, Inl e')"
    by (cases "build w nm ps ex wl b"; cases "snd (build w nm ps ex wl b)") auto
  then have "createToken w nm ps ex wl b = (fst (build w nm ps ex wl b), Exit1 e')"
    by (simp add: createToken_failed)
  then show ?thesis
    using build_no_post [of w nm ps ex wl b] by simp
qed

lemma demo_ids:
  "getPermissionGroupIds (env demo_world) = [''Account Settings Read'' \<mapsto> ''abc123'']"
  by (simp add: demo_world_def getPermissionGroupIds_def permissionKey_def is_upper_def
      startsWith_def trim_def is_space_def)

lemma demo_start_local:
  "start_policy ''ACCT1'' [''Account Settings Read'' \<mapsto> ''abc123'']
      ''com.cloudflare.api.account:Account Settings Read''
     = Fulfilled (make_policy ''ACCT1'' ''com.cloudflare.api.account'' ''abc123'')"
  by (simp add: start_policy_def parse_permission_def chosen_separator_def trim_def is_space_def
      read_defs object_prototype_names_def)

lemma demo_start_bad:
  "start_policy ''ACCT1'' [''Account Settings Read'' \<mapsto> ''abc123''] ''bad''
     = Rejected (InvalidFormatError ''bad'')"
  by (simp add: start_policy_def parse_permission_def chosen_separator_def)

lemma demo_start_zone:
  "start_policy ''ACCT1'' [''Account Settings Read'' \<mapsto> ''abc123''] ''zone:Zone Read''
     = Awaiting ''zone'' ''Zone Read''"
  by (simp add: start_policy_def parse_permission_def chosen_separator_def trim_def is_space_def
      read_defs object_prototype_names_def)

lemma demo_start_b:
  "start_policy ''ACCT1'' [''Account Settings Read'' \<mapsto> ''abc123''] ''a:b''
     = Awaiting ''a'' ''b''"
  by (simp add: start_policy_def parse_permission_def chosen_separator_def trim_def is_space_def
      read_defs object_prototype_names_def)

lemma demo_ip:
  "ip_phase demo_world True ''actions''
     = ([Request IpGet, Response IpGet], JArray [JString ''1.2.3.0/24''])"
  by (simp add: ip_phase_def demo_world_def numeral_3_eq_3 read_defs)

lemma no_ip: "ip_phase w False batch = ([], JArray [])"
  by (simp add: ip_phase_def)

lemma demo_account: "ACCOUNT_ID demo_world = ''ACCT1''"
  by (simp add: demo_world_def)

lemma demo_catalog:
  "permission_groups_api demo_world i = CatalogData [(''Zone Read'', ''zr1''), (''b'', ''b1'')]"
  by (simp add: demo_world_def)

lemma demo_malformed: "malformed ''bad''"
  by (simp add: malformed_def chosen_separator_def)

section \<open>Names that the table inherits\<close>

text \<open>
  The descriptor \<open>a:constructor\<close> is accepted, the table has no own entry
  \<open>constructor\<close>, and the read gives the inherited function: the callback throws a
  \<open>TypeError\<close> without any lookup, and this first rejection ends the run, also when a
  malformed descriptor follows. An entry \<open>PERMISSION___proto__\<close> of the environment is
  never stored.
\<close>

lemma demo_start_inherited:
  "start_policy ''ACCT1'' [''Account Settings Read'' \<mapsto> ''abc123''] ''a:constructor''
     = Rejected TypeError"
  by (simp add: start_policy_def parse_permission_def chosen_separator_def trim_def is_space_def
      read_defs object_prototype_names_def)

lemma inherited_name_ends_run:
  "createToken demo_world ''Generated Token'' [''a:constructor'', ''bad''] None False ''actions''
     = ([], Exit1 TypeError)"
proof -
  have "start_all demo_world [''a:constructor'', ''bad'']
      = [Rejected TypeError, Rejected (InvalidFormatError ''bad'')]"
    by (simp add: start_all_def demo_ids demo_account demo_start_inherited demo_start_bad)
  then show ?thesis
    by (simp add: createToken_def build_def no_ip requests_of_def)
qed

lemma proto_never_stored:
  "getPermissionGroupIds [(''PERMISSION___proto__'', ''x'')] = Map.empty"
  by (simp add: getPermissionGroupIds_def permissionKey_def startsWith_def trim_def
      is_space_def is_upper_def)

section \<open>A malformed descriptor\<close>

text \<open>
  Claim C1, as the code has it. Take a list that holds a malformed descriptor (no
  separator, an empty service, or an empty permission name, each as it stands before
  trimming) and in which no descriptor reads an inherited property of the table. Then the
  run ends with the format error of a malformed descriptor of the list and the token
  request is never posted. The calls that are issued before the run ends are the fetch of
  the IP ranges, which comes first when whitelisting is on, and the catalog lookups of the
  descriptors that the local table does not resolve; no answer of the catalog is handled.
  With whitelisting off and no such descriptor no call is issued at all.
\<close>

theorem malformed_descriptor_fails:
  assumes "p \<in> set permissions" and "malformed p"
    and "\<forall>q\<in>set permissions. \<not> reads_inherited (getPermissionGroupIds (env w)) q"
  shows "\<exists>q\<in>set permissions.
           malformed q
         \<and> createToken w nm permissions expiration wl batch
             = ((if wl then fst (fetchGitHubIPs (github_meta w) batch 3) else [])
                  @ concat (map requests_of (start_all w permissions)),
                Exit1 (InvalidFormatError q))
         \<and> Request TokenPost \<notin> set (fst (createToken w nm permissions expiration wl batch))"
proof -
  have "parse_permission p = Inl (InvalidFormatError p)"
    using assms(2) by (rule malformed_rejected)
  then have "start_policy (ACCOUNT_ID w) (getPermissionGroupIds (env w)) p
               = Rejected (InvalidFormatError p)"
    by (rule start_policy_error)
  with assms(1) have "Rejected (InvalidFormatError p) \<in> set (start_all w permissions)"
    by (force simp: start_all_def)
  then obtain e where first: "first_rejection (start_all w permissions) = Some e"
    using first_rejection_exists by blast
  then have "Rejected e \<in> set (start_all w permissions)"
    by (rule first_rejection_Some)
  then obtain q where q: "q \<in> set permissions"
    and "start_policy (ACCOUNT_ID w) (getPermissionGroupIds (env w)) q = Rejected e"
    by (auto simp: start_all_def)
  then have "parse_permission q = Inl e
      \<or> (e = TypeError \<and> reads_inherited (getPermissionGroupIds (env w)) q)"
    by (simp add: start_policy_Rejected)
  with q assms(3) have parse: "parse_permission q = Inl e"
    by blast
  then have e: "e = InvalidFormatError q"
    by (rule parse_permission_error)
  with parse have bad: "malformed q"
    by (simp add: malformed_iff_rejected)
  have "build w nm permissions expiration wl batch
          = (fst (ip_phase w wl batch) @ concat (map requests_of (start_all w permissions)), Inl e)"
    using first by (rule build_rejected)
  then have run: "createToken w nm permissions expiration wl batch
          = (fst (ip_phase w wl batch) @ concat (map requests_of (start_all w permissions)), Exit1 e)"
    by (rule createToken_failed)
  have "Request TokenPost \<notin> set (fst (createToken w nm permissions expiration wl batch))"
    unfolding run by (auto dest: ip_phase_events requests_of_events)
  with q bad e run show ?thesis
    by (auto simp: ip_phase_def)
qed

theorem malformed_descriptor_fails_witness:
  "malformed ''bad''
   \<and> createToken demo_world ''Generated Token''
        [''com.cloudflare.api.account:Account Settings Read'', ''bad''] None False ''actions''
     = ([], Exit1 (InvalidFormatError ''bad''))"
proof -
  have member: "''bad'' \<in> set [''com.cloudflare.api.account:Account Settings Read'', ''bad'']"
    by simp
  have good: "parse_permission ''com.cloudflare.api.account:Account Settings Read''
                = Inr (''com.cloudflare.api.account'', ''Account Settings Read'')"
    by (simp add: parse_permission_def chosen_separator_def)
  then have well: "\<not> malformed ''com.cloudflare.api.account:Account Settings Read''"
    by (simp add: malformed_iff_rejected)
  have "\<not> reads_inherited (getPermissionGroupIds (env demo_world))
            ''com.cloudflare.api.account:Account Settings Read''"
    by (simp add: reads_inherited_def good demo_ids trim_def is_space_def)
  moreover have "\<not> reads_inherited (getPermissionGroupIds (env demo_world)) ''bad''"
    by (simp add: reads_inherited_def parse_permission_def chosen_separator_def)
  ultimately have own: "\<forall>q\<in>set [''com.cloudflare.api.account:Account Settings Read'', ''bad''].
      \<not> reads_inherited (getPermissionGroupIds (env demo_world)) q"
    by simp
  have started: "start_all demo_world [''com.cloudflare.api.account:Account Settings Read'', ''bad'']
      = [Fulfilled (make_policy ''ACCT1'' ''com.cloudflare.api.account'' ''abc123''),
         Rejected (InvalidFormatError ''bad'')]"
    by (simp add: start_all_def demo_ids demo_account demo_start_local demo_start_bad)
  from malformed_descriptor_fails [OF member demo_malformed own, of "''Generated Token''"
      None False "''actions''"]
  obtain q where "q = ''com.cloudflare.api.account:Account Settings Read'' \<or> q = ''bad''"
    and "malformed q"
    and "createToken demo_world ''Generated Token''
           [''com.cloudflare.api.account:Account Settings Read'', ''bad''] None False ''actions''
         = (concat (map requests_of
              (start_all demo_world [''com.cloudflare.api.account:Account Settings Read'', ''bad''])),
            Exit1 (InvalidFormatError q))"
    by auto
  then show ?thesis
    using well demo_malformed by (auto simp: started requests_of_def)
qed

text \<open>
  With whitelisting on, the IP ranges have been fetched when the malformed descriptor
  \<open>bad\<close> ends the run.
\<close>

theorem malformed_descriptor_after_ip_fetch:
  "malformed ''bad''
   \<and> createToken demo_world ''Generated Token'' [''bad''] None True ''actions''
     = ([Request IpGet, Response IpGet], Exit1 (InvalidFormatError ''bad''))"
proof -
  have "start_all demo_world [''bad''] = [Rejected (InvalidFormatError ''bad'')]"
    by (simp add: start_all_def demo_ids demo_account demo_start_bad)
  then have "createToken demo_world ''Generated Token'' [''bad''] None True ''actions''
     = ([Request IpGet, Response IpGet], Exit1 (InvalidFormatError ''bad''))"
    by (simp add: createToken_def build_def demo_ip requests_of_def)
  with demo_malformed show ?thesis
    by simp
qed

section \<open>Remote lookups\<close>

text \<open>
  Claim C5, as the code has it. For an accepted descriptor whose trimmed permission name
  has a non-empty id in the local table, resolution makes no call. When the table has an
  empty entry for the name, or has no entry for it and does not inherit the name either,
  resolution makes exactly one catalog lookup; it
  succeeds only if the catalog answers with a group whose name is equal to the trimmed
  name, it does succeed whenever the answer holds such a group, and it fails with the
  not-found error when the answer holds none. A failed resolution of a descriptor of the
  list ends the whole run with an error and without a token request.
\<close>

theorem remote_lookup_only_when_needed:
  assumes "parse_permission permission = Inr (service, permissionName)"
  shows
    "(\<forall>v. ids (trim permissionName) = Some v \<and> v \<noteq> [] \<longrightarrow>
         fst (resolve account ids response permission) = [])
   \<and> ((ids (trim permissionName) = None \<and> trim permissionName \<notin> set object_prototype_names)
        \<or> ids (trim permissionName) = Some [] \<longrightarrow>
         fst (resolve account ids response permission)
           = [Request (CatalogGet (trim permissionName)), Response (CatalogGet (trim permissionName))]
       \<and> (\<forall>pol. snd (resolve account ids response permission) = Inr pol \<longrightarrow>
             (\<exists>groups groupId. response = CatalogData groups
                \<and> (trim permissionName, groupId) \<in> set groups
                \<and> pol = make_policy account service (service @ ''.'' @ groupId)))
       \<and> (\<forall>groups groupId. response = CatalogData groups
               \<and> (trim permissionName, groupId) \<in> set groups \<longrightarrow>
             (\<exists>pol. snd (resolve account ids response permission) = Inr pol))
       \<and> (\<forall>groups. response = CatalogData groups
               \<and> trim permissionName \<notin> fst ` set groups \<longrightarrow>
             snd (resolve account ids response permission)
               = Inl (PermissionNotFoundError (trim permissionName))))
   \<and> (\<forall>w nm permissions expiration wl batch i e.
         i < length permissions \<and> permissions ! i = permission \<and> account = ACCOUNT_ID w
         \<and> ids = getPermissionGroupIds (env w) \<and> response = permission_groups_api w i
         \<and> snd (resolve account ids response permission) = Inl e \<longrightarrow>
           (\<exists>e'. snd (createToken w nm permissions expiration wl batch) = Exit1 e')
           \<and> Request TokenPost \<notin> set (fst (createToken w nm permissions expiration wl batch)))"
proof (intro conjI allI impI)
  fix v
  assume "ids (trim permissionName) = Some v \<and> v \<noteq> []"
  then have "resolve account ids response permission = ([], Inr (make_policy account service v))"
    using assms resolve_local [of permission service permissionName ids v account response]
    by simp
  then show "fst (resolve account ids response permission) = []"
    by simp
next
  assume miss: "(ids (trim permissionName) = None \<and> trim permissionName \<notin> set object_prototype_names)
      \<or> ids (trim permissionName) = Some []"
  have r: "resolve account ids response permission =
           ([Request (CatalogGet (trim permissionName)), Response (CatalogGet (trim permissionName))],
            (case getPermissionGroupId response (trim permissionName) of
               Inl e \<Rightarrow> Inl e
             | Inr groupId \<Rightarrow> Inr (make_policy account service (service @ ''.'' @ groupId))))"
    using assms miss by (rule resolve_remote)
  show "fst (resolve account ids response permission)
           = [Request (CatalogGet (trim permissionName)), Response (CatalogGet (trim permissionName))]"
    by (simp add: r)
  {
    fix pol
    assume "snd (resolve account ids response permission) = Inr pol"
    then obtain groupId where "getPermissionGroupId response (trim permissionName) = Inr groupId"
      and "pol = make_policy account service (service @ ''.'' @ groupId)"
      by (auto simp: r split: sum.splits)
    then show "\<exists>groups groupId. response = CatalogData groups
                \<and> (trim permissionName, groupId) \<in> set groups
                \<and> pol = make_policy account service (service @ ''.'' @ groupId)"
      using getPermissionGroupId_Inr by blast
  }
  {
    fix groups groupId
    assume "response = CatalogData groups \<and> (trim permissionName, groupId) \<in> set groups"
    then obtain g where "getPermissionGroupId response (trim permissionName) = Inr g"
      using getPermissionGroupId_found by blast
    then show "\<exists>pol. snd (resolve account ids response permission) = Inr pol"
      by (simp add: r)
  }
  {
    fix groups
    assume "response = CatalogData groups \<and> trim permissionName \<notin> fst ` set groups"
    then have "getPermissionGroupId response (trim permissionName)
                 = Inl (PermissionNotFoundError (trim permissionName))"
      using getPermissionGroupId_missing by blast
    then show "snd (resolve account ids response permission)
               = Inl (PermissionNotFoundError (trim permissionName))"
      by (simp add: r)
  }
next
  fix w :: world and nm permissions expiration wl batch i e
  assume a: "i < length permissions \<and> permissions ! i = permission \<and> account = ACCOUNT_ID w
         \<and> ids = getPermissionGroupIds (env w) \<and> response = permission_groups_api w i
         \<and> snd (resolve account ids response permission) = Inl e"
  then have "(\<exists>e'. snd (createToken w nm permissions expiration wl batch) = Exit1 e')
       \<and> Request TokenPost \<notin> set (fst (createToken w nm permissions expiration wl batch))"
    using resolve_failure_aborts [of i permissions w e nm expiration wl batch] by blast
  then show "\<exists>e'. snd (createToken w nm permissions expiration wl batch) = Exit1 e'"
    and "Request TokenPost \<notin> set (fst (createToken w nm permissions expiration wl batch))"
    by simp_all
qed

theorem remote_lookup_only_when_needed_witness:
  "resolve ''ACCT1'' Map.empty (CatalogData [(''Zone Read'', ''zr1'')]) ''zone:Zone Read''
     = ([Request (CatalogGet ''Zone Read''), Response (CatalogGet ''Zone Read'')],
        Inr (make_policy ''ACCT1'' ''zone'' ''zone.zr1''))
   \<and> resolve ''ACCT1'' Map.empty (CatalogData [(''Zone Read'', ''zr1'')]) ''zone:Zone Write''
     = ([Request (CatalogGet ''Zone Write''), Response (CatalogGet ''Zone Write'')],
        Inl (PermissionNotFoundError ''Zone Write''))"
proof -
  have t1: "trim ''Zone Read'' = ''Zone Read''" and t2: "trim ''Zone Write'' = ''Zone Write''"
    by (simp_all add: trim_def is_space_def)
  have p1: "parse_permission ''zone:Zone Read'' = Inr (''zone'', ''Zone Read'')"
    and p2: "parse_permission ''zone:Zone Write'' = Inr (''zone'', ''Zone Write'')"
    by (simp_all add: parse_permission_def chosen_separator_def)
  note w1 = remote_lookup_only_when_needed [OF p1, of Map.empty "''ACCT1''"
      "CatalogData [(''Zone Read'', ''zr1'')]", THEN conjunct2, THEN conjunct1, unfolded t1]
  note w2 = remote_lookup_only_when_needed [OF p2, of Map.empty "''ACCT1''"
      "CatalogData [(''Zone Read'', ''zr1'')]", THEN conjunct2, THEN conjunct1, unfolded t2]
  have n1: "''Zone Read'' \<notin> set object_prototype_names"
    and n2: "''Zone Write'' \<notin> set object_prototype_names"
    by (simp_all add: object_prototype_names_def)
  from w1 n1 have e1: "fst (resolve ''ACCT1'' Map.empty (CatalogData [(''Zone Read'', ''zr1'')]) ''zone:Zone Read'')
         = [Request (CatalogGet ''Zone Read''), Response (CatalogGet ''Zone Read'')]"
    by simp
  from w1 n1 obtain groupId where "(''Zone Read'', groupId) \<in> set [(''Zone Read'', ''zr1'')]"
    and "snd (resolve ''ACCT1'' Map.empty (CatalogData [(''Zone Read'', ''zr1'')]) ''zone:Zone Read'')
          = Inr (make_policy ''ACCT1'' ''zone'' (''zone'' @ ''.'' @ groupId))"
    by fastforce
  then have r1: "snd (resolve ''ACCT1'' Map.empty (CatalogData [(''Zone Read'', ''zr1'')]) ''zone:Zone Read'')
          = Inr (make_policy ''ACCT1'' ''zone'' ''zone.zr1'')"
    by simp
  from w2 n2 have e2: "fst (resolve ''ACCT1'' Map.empty (CatalogData [(''Zone Read'', ''zr1'')]) ''zone:Zone Write'')
         = [Request (CatalogGet ''Zone Write''), Response (CatalogGet ''Zone Write'')]"
    by simp
  from w2 n2 have r2: "snd (resolve ''ACCT1'' Map.empty (CatalogData [(''Zone Read'', ''zr1'')]) ''zone:Zone Write'')
         = Inl (PermissionNotFoundError ''Zone Write'')"
    by simp
  from e1 r1 e2 r2 show ?thesis
    by (simp add: prod_eq_iff)
qed

text \<open>
  The table built from the environment entry \<open>PERMISSION_ZoneRead=\<close> has an entry for
  \<open>Zone Read\<close>, the empty string, and resolving \<open>zone:Zone Read\<close> makes a remote call.
\<close>

theorem empty_local_entry_makes_remote_call:
  "getPermissionGroupIds [(''PERMISSION_ZoneRead'', [])] (trim ''Zone Read'') = Some []
   \<and> fst (resolve ''ACCT1'' (getPermissionGroupIds [(''PERMISSION_ZoneRead'', [])])
            (CatalogData [(''Zone Read'', ''zr1'')]) ''zone:Zone Read'')
     = [Request (CatalogGet ''Zone Read''), Response (CatalogGet ''Zone Read'')]"
proof -
  have t: "trim ''Zone Read'' = ''Zone Read''"
    by (simp add: trim_def is_space_def)
  have p: "parse_permission ''zone:Zone Read'' = Inr (''zone'', ''Zone Read'')"
    by (simp add: parse_permission_def chosen_separator_def)
  have "start_policy ''ACCT1'' (getPermissionGroupIds [(''PERMISSION_ZoneRead'', [])]) ''zone:Zone Read''
          = Awaiting ''zone'' ''Zone Read''"
    by (simp add: start_policy_def p t getPermissionGroupIds_empty_value read_defs)
  then show ?thesis
    by (simp add: resolve_def requests_of_def settle_one_def t getPermissionGroupIds_empty_value)
qed

section \<open>The order of the network calls\<close>

lemma peak_ge_start: "k \<le> peak_in_flight k es"
proof (induction es arbitrary: k)
  case Nil
  then show ?case by simp
next
  case (Cons e es)
  show ?case
  proof (cases e)
    case (Request c)
    then show ?thesis by simp
  next
    case (Response c)
    then show ?thesis by simp
  next
    case (Delay ms)
    then show ?thesis using Cons.IH by simp
  qed
qed

lemma peak_requests:
  "(\<And>e. e \<in> set rs \<Longrightarrow> \<exists>c. e = Request c) \<Longrightarrow> k + length rs \<le> peak_in_flight k (rs @ es)"
proof (induction rs arbitrary: k)
  case Nil
  then show ?case by (simp add: peak_ge_start)
next
  case (Cons r rs)
  from Cons.prems [of r] obtain c where r: "r = Request c"
    by auto
  have "Suc k + length rs \<le> peak_in_flight (Suc k) (rs @ es)"
    using Cons.prems by (intro Cons.IH) simp
  then show ?case
    by (simp add: r)
qed

lemma peak_fetch_append:
  "peak_in_flight 0 (fst (fetchGitHubIPs api batch retries) @ es) = max 1 (peak_in_flight 0 es)"
proof (induction retries arbitrary: api)
  case 0
  then show ?case
    by (cases "api 0") (simp_all add: fetch_answered)
next
  case (Suc retries)
  show ?case
  proof (cases "api 0")
    case MetaFailed
    then show ?thesis
      using Suc.IH [of "\<lambda>k. api (Suc k)"]
      by (simp add: fetch_retried del: fetchGitHubIPs.simps)
  next
    case (MetaData data)
    then show ?thesis
      by (simp add: fetch_answered)
  qed
qed

lemma peak_ip_phase: "peak_in_flight 0 (fst (ip_phase w wl batch)) \<le> 1"
  by (simp add: ip_phase_def peak_fetch)

lemma peak_after_ip_phase:
  "peak_in_flight 0 es \<le> peak_in_flight 0 (fst (ip_phase w wl batch) @ es)"
  by (simp add: ip_phase_def peak_fetch_append)

lemma demo_tokens: "tokens_api demo_world request = TokenCreated ''secret''"
  by (simp add: demo_world_def)

lemma createToken_trace:
  "\<exists>answers post.
      fst (createToken w nm permissions expiration wl batch)
        = fst (ip_phase w wl batch) @ concat (map requests_of (start_all w permissions))
            @ answers @ post
    \<and> (\<forall>e\<in>set answers. \<exists>n. e = Response (CatalogGet n))
    \<and> (post = [] \<or> post = [Request TokenPost, Response TokenPost])
    \<and> (post \<noteq> [] \<longleftrightarrow> (\<exists>request. snd (build w nm permissions expiration wl batch) = Inr request))"
proof -
  obtain answers where t: "fst (build w nm permissions expiration wl batch)
       = fst (ip_phase w wl batch) @ concat (map requests_of (start_all w permissions)) @ answers"
    and a: "\<forall>e\<in>set answers. \<exists>n. e = Response (CatalogGet n)"
    using build_trace by blast
  obtain ev r where b: "build w nm permissions expiration wl batch = (ev, r)"
    by (cases "build w nm permissions expiration wl batch")
  show ?thesis
  proof (cases r)
    case (Inl e)
    with b have "createToken w nm permissions expiration wl batch = (ev, Exit1 e)"
      by (simp add: createToken_failed)
    with t a b Inl show ?thesis
      by (intro exI [of _ answers] exI [of _ "[]"]) simp
  next
    case (Inr request)
    with b have "fst (createToken w nm permissions expiration wl batch)
                   = ev @ [Request TokenPost, Response TokenPost]"
      by (simp add: createToken_posted)
    with t a b Inr show ?thesis
      by (intro exI [of _ answers] exI [of _ "[Request TokenPost, Response TokenPost]"]) simp
  qed
qed

text \<open>
  Claim C3, as the code has it. The calls of one run come in this order: first the fetch
  of the IP ranges with its retries, one call at a time; then the catalog lookups of all
  descriptors that the local table does not resolve, issued in the order of the
  descriptors and all before any answer is handled, so that they are in flight together;
  then the answers of the catalog; and last the token request, which is posted exactly
  when every descriptor has been resolved. A descriptor that fails does not keep the
  lookups of the other descriptors from being issued; it keeps the token request from
  being posted.
\<close>

theorem createToken_call_order:
  "\<exists>answers post.
      fst (createToken w nm permissions expiration wl batch)
        = fst (ip_phase w wl batch) @ concat (map requests_of (start_all w permissions))
            @ answers @ post
    \<and> peak_in_flight 0 (fst (ip_phase w wl batch)) \<le> 1
    \<and> length (concat (map requests_of (start_all w permissions)))
          \<le> peak_in_flight 0 (fst (createToken w nm permissions expiration wl batch))
    \<and> (\<forall>e\<in>set answers. \<exists>n. e = Response (CatalogGet n))
    \<and> (post = [] \<or> post = [Request TokenPost, Response TokenPost])
    \<and> (post \<noteq> [] \<longleftrightarrow>
          (\<forall>i<length permissions.
              \<exists>pol. snd (resolve (ACCOUNT_ID w) (getPermissionGroupIds (env w))
                            (permission_groups_api w i) (permissions ! i)) = Inr pol))"
proof -
  obtain answers post where
    t: "fst (createToken w nm permissions expiration wl batch)
        = fst (ip_phase w wl batch) @ concat (map requests_of (start_all w permissions))
            @ answers @ post"
    and a: "\<forall>e\<in>set answers. \<exists>n. e = Response (CatalogGet n)"
    and p: "post = [] \<or> post = [Request TokenPost, Response TokenPost]"
    and s: "post \<noteq> [] \<longleftrightarrow> (\<exists>request. snd (build w nm permissions expiration wl batch) = Inr request)"
    using createToken_trace by blast
  have "e \<in> set (concat (map requests_of (start_all w permissions))) \<Longrightarrow> \<exists>c. e = Request c" for e
    by (auto dest: requests_of_events)
  then have "0 + length (concat (map requests_of (start_all w permissions)))
      \<le> peak_in_flight 0 (concat (map requests_of (start_all w permissions)) @ answers @ post)"
    by (rule peak_requests)
  also have "\<dots> \<le> peak_in_flight 0 (fst (createToken w nm permissions expiration wl batch))"
    unfolding t by (rule peak_after_ip_phase)
  finally have together: "length (concat (map requests_of (start_all w permissions)))
          \<le> peak_in_flight 0 (fst (createToken w nm permissions expiration wl batch))"
    by simp
  show ?thesis
    using t a p s together peak_ip_phase [of w wl batch]
    unfolding build_succeeds_iff by blast
qed

theorem createToken_call_order_witness:
  "\<exists>answers post.
      fst (createToken demo_world ''Generated Token'' [''zone:Zone Read'', ''a:b''] None True ''actions'')
        = [Request IpGet, Response IpGet, Request (CatalogGet ''Zone Read''), Request (CatalogGet ''b'')]
            @ answers @ post
    \<and> 2 \<le> peak_in_flight 0
          (fst (createToken demo_world ''Generated Token'' [''zone:Zone Read'', ''a:b''] None True ''actions''))"
proof -
  have started: "start_all demo_world [''zone:Zone Read'', ''a:b'']
      = [Awaiting ''zone'' ''Zone Read'', Awaiting ''a'' ''b'']"
    by (simp add: start_all_def demo_ids demo_account demo_start_zone demo_start_b)
  from createToken_call_order [of demo_world "''Generated Token''" "[''zone:Zone Read'', ''a:b'']"
      None True "''actions''"]
  obtain answers post where
    "fst (createToken demo_world ''Generated Token'' [''zone:Zone Read'', ''a:b''] None True ''actions'')
        = fst (ip_phase demo_world True ''actions'')
            @ concat (map requests_of (start_all demo_world [''zone:Zone Read'', ''a:b'']))
            @ answers @ post"
    and "length (concat (map requests_of (start_all demo_world [''zone:Zone Read'', ''a:b''])))
          \<le> peak_in_flight 0
              (fst (createToken demo_world ''Generated Token'' [''zone:Zone Read'', ''a:b''] None True ''actions''))"
    by blast
  then have "fst (createToken demo_world ''Generated Token'' [''zone:Zone Read'', ''a:b''] None True ''actions'')
        = [Request IpGet, Response IpGet, Request (CatalogGet ''Zone Read''), Request (CatalogGet ''b'')]
            @ answers @ post"
    and "2 \<le> peak_in_flight 0
          (fst (createToken demo_world ''Generated Token'' [''zone:Zone Read'', ''a:b''] None True ''actions''))"
    by (simp_all add: started demo_ip requests_of_def)
  then show ?thesis
    by blast
qed

text \<open>
  Two descriptors that the local table does not resolve: both lookups are issued before
  the first answer is handled, so two calls are in flight. And a lookup is issued for
  \<open>zone:Zone Read\<close> although the descriptor before it is malformed.
\<close>

theorem catalog_lookups_in_flight_together:
  "fst (createToken demo_world ''Generated Token'' [''zone:Zone Read'', ''a:b''] None False ''actions'')
     = [Request (CatalogGet ''Zone Read''), Request (CatalogGet ''b''),
        Response (CatalogGet ''Zone Read''), Response (CatalogGet ''b''),
        Request TokenPost, Response TokenPost]
   \<and> peak_in_flight 0
        (fst (createToken demo_world ''Generated Token'' [''zone:Zone Read'', ''a:b''] None False ''actions''))
     = 2
   \<and> createToken demo_world ''Generated Token'' [''bad'', ''zone:Zone Read''] None False ''actions''
     = ([Request (CatalogGet ''Zone Read'')], Exit1 (InvalidFormatError ''bad''))"
proof -
  have started: "start_all demo_world [''zone:Zone Read'', ''a:b'']
      = [Awaiting ''zone'' ''Zone Read'', Awaiting ''a'' ''b'']"
    by (simp add: start_all_def demo_ids demo_account demo_start_zone demo_start_b)
  have trace: "fst (createToken demo_world ''Generated Token'' [''zone:Zone Read'', ''a:b''] None False ''actions'')
     = [Request (CatalogGet ''Zone Read''), Request (CatalogGet ''b''),
        Response (CatalogGet ''Zone Read''), Response (CatalogGet ''b''),
        Request TokenPost, Response TokenPost]"
    by (simp add: createToken_def build_def started demo_account no_ip requests_of_def
        settle_one_def getPermissionGroupId_def demo_catalog)
  have peak: "peak_in_flight 0
       [Request (CatalogGet ''Zone Read''), Request (CatalogGet ''b''),
        Response (CatalogGet ''Zone Read''), Response (CatalogGet ''b''),
        Request TokenPost, Response TokenPost] = 2"
    by simp
  have "start_all demo_world [''bad'', ''zone:Zone Read'']
      = [Rejected (InvalidFormatError ''bad''), Awaiting ''zone'' ''Zone Read'']"
    by (simp add: start_all_def demo_ids demo_account demo_start_zone demo_start_bad)
  then have "createToken demo_world ''Generated Token'' [''bad'', ''zone:Zone Read''] None False ''actions''
     = ([Request (CatalogGet ''Zone Read'')], Exit1 (InvalidFormatError ''bad''))"
    by (simp add: createToken_def build_def no_ip requests_of_def)
  with trace peak show ?thesis
    by (simp only: simp_thms)
qed

section \<open>The assembled token request\<close>

lemma build_Inr_fields:
  assumes "build w nm ps ex wl b = (events, Inr request)"
  shows "name request = nm
       \<and> condition request = (if wl then Some (snd (ip_phase w wl b)) else None)
       \<and> expires_on request = or_undefined ex
       \<and> not_before request = hd (split_on CHR ''.'' (toISOString (now w))) @ ''Z''"
proof (cases rule: build_cases [of w ps nm ex wl b])
  case (rejected e)
  with assms show ?thesis by simp
next
  case (failed answers e)
  with assms show ?thesis by simp
next
  case (settled answers pols)
  with assms show ?thesis by auto
qed

lemma digit_char_in: "digit_char v \<in> set ''0123456789''"
proof -
  have "v mod 10 < length ''0123456789''"
    by simp
  then have "''0123456789'' ! (v mod 10) \<in> set ''0123456789''"
    by (rule nth_mem)
  then show ?thesis
    by (simp only: digit_char_def)
qed

lemma digit_char_no_dot: "CHR ''.'' \<noteq> digit_char v"
  using digit_char_in [of v] by auto

lemma pad2_no_dot: "CHR ''.'' \<notin> set (pad2 v)"
  by (simp add: pad2_def digit_char_no_dot)

lemma pad3_no_dot: "CHR ''.'' \<notin> set (pad3 v)"
  by (simp add: pad3_def digit_char_no_dot pad2_no_dot)

lemma pad4_no_dot: "CHR ''.'' \<notin> set (pad4 v)"
  by (simp add: pad4_def digit_char_no_dot pad3_no_dot)

lemma pad6_no_dot: "CHR ''.'' \<notin> set (pad6 v)"
  by (simp add: pad6_def digit_char_no_dot pad4_no_dot)

lemma iso_year_no_dot: "CHR ''.'' \<notin> set (iso_year y)"
  by (simp add: iso_year_def pad4_no_dot pad6_no_dot)

lemma iso_seconds_no_dot: "CHR ''.'' \<notin> set (iso_seconds d)"
  by (simp add: iso_seconds_def iso_year_no_dot pad2_no_dot)

lemma iso_before_dot: "hd (split_on CHR ''.'' (toISOString d)) = iso_seconds d"
proof -
  have "split_on CHR ''.'' (iso_seconds d @ CHR ''.'' # pad3 (utc_milliseconds d) @ ''Z'')
          = iso_seconds d # split_on CHR ''.'' (pad3 (utc_milliseconds d) @ ''Z'')"
    using iso_seconds_no_dot by (rule split_on_append_sep)
  then show ?thesis
    by (simp add: toISOString_def)
qed

lemma iso_seconds_ignores_milliseconds:
  "iso_seconds (d\<lparr>utc_milliseconds := ms\<rparr>) = iso_seconds d"
  by (simp add: iso_seconds_def)

lemma demo_now_seconds: "iso_seconds (now demo_world) = ''2025-03-09T04:05:06''"
  by (simp add: demo_world_def iso_seconds_def iso_year_def digit_char_def pad2_def pad3_def pad4_def)

lemma demo_build:
  "build demo_world ''Generated Token'' [''a:b''] (Some ''2025-12-31T23:59:59Z'') True ''actions''
     = ([Request IpGet, Response IpGet, Request (CatalogGet ''b''), Response (CatalogGet ''b'')],
        Inr \<lparr>name = ''Generated Token'',
             policies = [make_policy ''ACCT1'' ''a'' ''a.b1''],
             condition = Some (JArray [JString ''1.2.3.0/24'']),
             expires_on = Some ''2025-12-31T23:59:59Z'',
             not_before = ''2025-03-09T04:05:06Z''\<rparr>)"
proof -
  have started: "start_all demo_world [''a:b''] = [Awaiting ''a'' ''b'']"
    by (simp add: start_all_def demo_ids demo_account demo_start_b)
  show ?thesis
    by (simp add: build_def started demo_ip demo_account requests_of_def settle_one_def
        getPermissionGroupId_def demo_catalog or_undefined_def iso_before_dot demo_now_seconds)
qed

text \<open>
  Claim C6. In every token request that a build assembles, the IP condition is present
  exactly when whitelisting is on: with whitelisting off the field is absent, and with
  whitelisting on the list under \<open>request_ip.in\<close> is the list that the fetch of the IP
  ranges returned.
\<close>

theorem condition_iff_whitelist:
  assumes "build w nm permissions expiration wl batch = (events, Inr request)"
  shows "(condition request \<noteq> None \<longleftrightarrow> wl)
       \<and> condition request
           = (if wl then Some (snd (fetchGitHubIPs (github_meta w) batch 3)) else None)"
  using build_Inr_fields [OF assms] by (simp add: ip_phase_def)

theorem condition_iff_whitelist_witness:
  "build demo_world ''Generated Token'' [''a:b''] (Some ''2025-12-31T23:59:59Z'') True ''actions''
     = ([Request IpGet, Response IpGet, Request (CatalogGet ''b''), Response (CatalogGet ''b'')],
        Inr \<lparr>name = ''Generated Token'',
             policies = [make_policy ''ACCT1'' ''a'' ''a.b1''],
             condition = Some (JArray [JString ''1.2.3.0/24'']),
             expires_on = Some ''2025-12-31T23:59:59Z'',
             not_before = ''2025-03-09T04:05:06Z''\<rparr>)
   \<and> snd (fetchGitHubIPs (github_meta demo_world) ''actions'' 3)
       = JArray [JString ''1.2.3.0/24'']"
  using condition_iff_whitelist [OF demo_build] demo_build by simp

text \<open>
  Claim C8. In every token request that a build assembles, \<open>not_before\<close> is the current
  time printed up to the seconds and followed by \<open>Z\<close>, that is the ISO form of the current
  time with its milliseconds set to zero, without the fraction; and \<open>expires_on\<close> is set
  only if an expiration string was passed, and is then that string. Every non-empty
  expiration string is passed on in this way.
\<close>

theorem not_before_and_expires_on:
  assumes "build w nm permissions expiration wl batch = (events, Inr request)"
  shows "not_before request = iso_seconds (now w) @ ''Z''
       \<and> toISOString ((now w)\<lparr>utc_milliseconds := 0\<rparr>) = iso_seconds (now w) @ ''.000Z''
       \<and> (\<forall>e. expires_on request = Some e \<longrightarrow> expiration = Some e)
       \<and> (\<forall>e. expiration = Some e \<and> e \<noteq> [] \<longrightarrow> expires_on request = Some e)
       \<and> (expiration = None \<longrightarrow> expires_on request = None)"
proof -
  note fields = build_Inr_fields [OF assms]
  have 1: "not_before request = iso_seconds (now w) @ ''Z''"
    using fields by (simp add: iso_before_dot)
  have 2: "toISOString ((now w)\<lparr>utc_milliseconds := 0\<rparr>) = iso_seconds (now w) @ ''.000Z''"
    by (simp add: toISOString_def iso_seconds_ignores_milliseconds pad3_def pad2_def digit_char_def)
  have 3: "expires_on request = or_undefined expiration"
    using fields by simp
  show ?thesis
    using 1 2 3 by (auto simp: or_undefined_def split: option.splits if_splits)
qed

theorem not_before_and_expires_on_witness:
  "build demo_world ''Generated Token'' [''a:b''] (Some ''2025-12-31T23:59:59Z'') True ''actions''
     = ([Request IpGet, Response IpGet, Request (CatalogGet ''b''), Response (CatalogGet ''b'')],
        Inr \<lparr>name = ''Generated Token'',
             policies = [make_policy ''ACCT1'' ''a'' ''a.b1''],
             condition = Some (JArray [JString ''1.2.3.0/24'']),
             expires_on = Some ''2025-12-31T23:59:59Z'',
             not_before = ''2025-03-09T04:05:06Z''\<rparr>)
   \<and> iso_seconds (now demo_world) @ ''Z'' = ''2025-03-09T04:05:06Z''
   \<and> toISOString ((now demo_world)\<lparr>utc_milliseconds := 0\<rparr>) = ''2025-03-09T04:05:06.000Z''"
  using not_before_and_expires_on [OF demo_build] demo_build demo_now_seconds by simp

section \<open>The fetch of the IP ranges\<close>

lemma fetch_attempts:
  "count_list (fst (fetchGitHubIPs api batch retries)) (Request IpGet) \<le> Suc retries"
proof (induction retries arbitrary: api)
  case 0
  then show ?case
    by (cases "api 0") (simp_all add: fetch_answered)
next
  case (Suc retries)
  show ?case
  proof (cases "api 0")
    case MetaFailed
    then show ?thesis
      using Suc.IH [of "\<lambda>k. api (Suc k)"]
      by (simp add: fetch_retried del: fetchGitHubIPs.simps)
  next
    case (MetaData data)
    then show ?thesis
      by (simp add: fetch_answered)
  qed
qed

lemma fetch_trace_shape:
  "\<exists>n\<le>retries. fst (fetchGitHubIPs api batch retries) = retry_trace n"
proof (induction retries arbitrary: api)
  case 0
  then show ?case
    by (cases "api 0") (simp_all add: fetch_answered)
next
  case (Suc retries)
  show ?case
  proof (cases "api 0")
    case MetaFailed
    obtain n where "n \<le> retries"
      and "fst (fetchGitHubIPs (\<lambda>k. api (Suc k)) batch retries) = retry_trace n"
      using Suc.IH [of "\<lambda>k. api (Suc k)"] by blast
    with MetaFailed have "Suc n \<le> Suc retries
        \<and> fst (fetchGitHubIPs api batch (Suc retries)) = retry_trace (Suc n)"
      by (simp add: fetch_retried del: fetchGitHubIPs.simps)
    then show ?thesis
      by blast
  next
    case (MetaData data)
    then have "fst (fetchGitHubIPs api batch (Suc retries)) = retry_trace 0"
      by (simp add: fetch_answered del: fetchGitHubIPs.simps)
    then show ?thesis
      by blast
  qed
qed

lemma fetch_all_failed:
  "(\<And>k. k \<le> retries \<Longrightarrow> api k = MetaFailed) \<Longrightarrow>
     fetchGitHubIPs api batch retries = (retry_trace retries, JArray [])"
proof (induction retries arbitrary: api)
  case 0
  then show ?case by simp
next
  case (Suc retries)
  have first: "api 0 = MetaFailed"
    using Suc.prems [of 0] by simp
  have "fetchGitHubIPs (\<lambda>k. api (Suc k)) batch retries = (retry_trace retries, JArray [])"
    using Suc.prems by (intro Suc.IH) simp
  then show ?case
    using first by (simp add: fetch_retried del: fetchGitHubIPs.simps)
qed

lemma fetch_first_answer:
  "k \<le> retries \<Longrightarrow> (\<And>j. j < k \<Longrightarrow> api j = MetaFailed) \<Longrightarrow> api k = MetaData data \<Longrightarrow>
     fetchGitHubIPs api batch retries
       = (retry_trace k, or_else (get_property data batch) (JArray []))"
proof (induction k arbitrary: api retries)
  case 0
  then show ?case
    by (simp add: fetch_answered del: fetchGitHubIPs.simps)
next
  case (Suc k)
  from Suc.prems(1) obtain r where r: "retries = Suc r" and kr: "k \<le> r"
    by (cases retries) auto
  have first: "api 0 = MetaFailed"
    using Suc.prems(2) [of 0] by simp
  have "fetchGitHubIPs (\<lambda>j. api (Suc j)) batch r
          = (retry_trace k, or_else (get_property data batch) (JArray []))"
    using kr Suc.prems(2,3) by (intro Suc.IH) simp_all
  then show ?case
    using first by (simp add: r fetch_retried del: fetchGitHubIPs.simps)
qed

lemma build_success_whatever_whitelist:
  "(\<exists>request. snd (build w nm ps ex True b) = Inr request)
     \<longleftrightarrow> (\<exists>request. snd (build w nm ps ex False b) = Inr request)"
  by (simp only: build_succeeds_iff)

text \<open>
  What the fetch does for every batch name that an object does not inherit: it never
  ends the build, it makes a first call and at most \<open>retries\<close> more, each of them after a
  wait of 1000 milliseconds, it returns the empty list when every attempt has failed, and
  it returns the empty list when the first body that arrives has no entry for the batch.
\<close>

lemma fetch_retries_and_degrades:
  "(\<exists>n\<le>retries. fst (fetchGitHubIPs api batch retries) = retry_trace n)
   \<and> ((\<forall>k\<le>retries. api k = MetaFailed) \<longrightarrow>
         fetchGitHubIPs api batch retries = (retry_trace retries, JArray []))
   \<and> (\<forall>k data. k \<le> retries \<and> (\<forall>j<k. api j = MetaFailed) \<and> api k = MetaData data
         \<and> data batch = None \<and> batch \<notin> set object_prototype_names \<longrightarrow>
           fetchGitHubIPs api batch retries = (retry_trace k, JArray []))
   \<and> fst (ip_phase w True batch) = fst (fetchGitHubIPs (github_meta w) batch 3)
   \<and> ((\<exists>request. snd (build w nm permissions expiration True batch) = Inr request)
        \<longleftrightarrow> (\<exists>request. snd (build w nm permissions expiration False batch) = Inr request))"
proof (intro conjI allI impI)
  show "\<exists>n\<le>retries. fst (fetchGitHubIPs api batch retries) = retry_trace n"
    by (rule fetch_trace_shape)
  show "fetchGitHubIPs api batch retries = (retry_trace retries, JArray [])"
    if "\<forall>k\<le>retries. api k = MetaFailed"
    using fetch_all_failed [of retries api batch] that by simp
  show "fetchGitHubIPs api batch retries = (retry_trace k, JArray [])"
    if "k \<le> retries \<and> (\<forall>j<k. api j = MetaFailed) \<and> api k = MetaData data
         \<and> data batch = None \<and> batch \<notin> set object_prototype_names"
    for k data
    using fetch_first_answer [of k retries api data batch] that
    by (simp add: get_property_def or_else_def truthy_def)
  show "fst (ip_phase w True batch) = fst (fetchGitHubIPs (github_meta w) batch 3)"
    by (simp add: ip_phase_def)
  show "(\<exists>request. snd (build w nm permissions expiration True batch) = Inr request)
        \<longleftrightarrow> (\<exists>request. snd (build w nm permissions expiration False batch) = Inr request)"
    by (rule build_success_whatever_whitelist)
qed

text \<open>
  Claim C7 at the batch name \<open>constructor\<close>. The registry answers the first call with a
  body that has the batch \<open>actions\<close> and no entry \<open>constructor\<close>. The claim has the fetch
  return the empty list for a batch that the body lacks; the function returns the value
  that the body inherits under that name, which is not the empty list.
\<close>

theorem fetch_inherited_batch_key:
  "[''actions'' \<mapsto> JArray [JString ''1.2.3.0/24'']] ''constructor'' = None
   \<and> fetchGitHubIPs (\<lambda>k. MetaData [''actions'' \<mapsto> JArray [JString ''1.2.3.0/24'']])
        ''constructor'' 3
     = ([Request IpGet, Response IpGet], JInherited ''constructor'')
   \<and> JInherited ''constructor'' \<noteq> JArray []"
  by (simp add: numeral_3_eq_3 get_property_def or_else_def truthy_def
      object_prototype_names_def)

end
